theory Spec2Isabelle
  imports Main "HOL-Library.Word"
begin

section \<open>Data model: the tables Test and File\<close>

text \<open>
  The two tables of the migrations. Timestamps are milliseconds since the epoch.
  The columns \<open>id\<close> and \<open>size\<close> are written \<open>tid\<close>/\<open>fid\<close> and \<open>fsize\<close>, since
  \<open>id\<close> and \<open>size\<close> are constants of HOL.
\<close>

type_synonym datetime = nat

record Test =
  tid :: nat
  name :: string
  createdAt :: datetime
  startedAt :: "datetime option"
  finishedAt :: "datetime option"
  parameters :: string

record File =
  fid :: nat
  uid :: string
  originalName :: string
  path :: string
  fsize :: nat
  testId :: nat

text \<open>
  The database: the rows of both tables in insertion order, and the two counters that
  SQLite keeps for \<open>AUTOINCREMENT\<close> columns.
\<close>

record database =
  tests :: "Test list"
  files :: "File list"
  test_seq :: nat
  file_seq :: nat

text \<open>What a handler can throw.\<close>

datatype error =
    UniqueConstraintFailed
  | RecordNotFound
  | ValidationError
  | JsError string
  | IoError string
  | NotMultipartError

section \<open>The ORM calls used by the handlers\<close>

text \<open>
  \<open>AUTOINCREMENT\<close>: the new id is one more than the largest id the table has ever held.
\<close>

definition next_id :: "nat \<Rightarrow> nat list \<Rightarrow> nat" where
  "next_id seq ids = Suc (fold max ids seq)"

text \<open>\<open>prisma.test.findUnique({ where: { name } })\<close>\<close>

definition test_findUnique :: "database \<Rightarrow> string \<Rightarrow> Test option" where
  "test_findUnique d n = find (\<lambda>t. name t = n) (tests d)"

text \<open>
  \<open>prisma.test.create({ data: { name, parameters } })\<close>: the unique index on \<open>name\<close>
  rejects a second row of the same name; \<open>createdAt\<close> takes its default, the current
  time, and the two nullable columns stay null.
\<close>

definition test_create :: "datetime \<Rightarrow> string \<Rightarrow> string \<Rightarrow> database \<Rightarrow> error + Test \<times> database" where
  "test_create now n ps d =
     (case test_findUnique d n of
        Some _ \<Rightarrow> Inl UniqueConstraintFailed
      | None \<Rightarrow>
          let i = next_id (test_seq d) (map tid (tests d));
              t = \<lparr>tid = i, name = n, createdAt = now, startedAt = None,
                   finishedAt = None, parameters = ps\<rparr>
          in Inr (t, d\<lparr>tests := tests d @ [t], test_seq := i\<rparr>))"

text \<open>
  \<open>prisma.test.update({ where, data })\<close>: throws when no row satisfies \<open>where\<close>;
  otherwise the rows that satisfy it are rewritten and the rewritten row is returned.
\<close>

definition test_update :: "(Test \<Rightarrow> bool) \<Rightarrow> (Test \<Rightarrow> Test) \<Rightarrow> database \<Rightarrow> error + Test \<times> database" where
  "test_update wh upd d =
     (case find wh (tests d) of
        None \<Rightarrow> Inl RecordNotFound
      | Some t \<Rightarrow> Inr (upd t, d\<lparr>tests := map (\<lambda>x. if wh x then upd x else x) (tests d)\<rparr>))"

section \<open>Replies\<close>

datatype payload =
    MessageId string nat
  | Status string
  | Message string
  | ErrorMsg string
  | TestWithFiles Test "File list"
  | TestSummaries "(Test \<times> (nat \<times> string) list) list"
  | FileStream "8 word list"
  | ServerError error

datatype reply = Reply (code: nat) (headers: "(string \<times> string) list") (body: payload)

text \<open>
  A handler either returns a reply or throws. The framework answers a thrown error with
  the status code the error carries, and with status 500 when it carries none. Of the
  errors here only the one of the multipart plugin carries a code.
\<close>

definition status_of :: "error \<Rightarrow> nat" where
  "status_of e = (if e = NotMultipartError then 406 else 500)"

definition fastify_reply :: "error + reply \<Rightarrow> reply" where
  "fastify_reply r = (case r of Inl e \<Rightarrow> Reply (status_of e) [] (ServerError e) | Inr x \<Rightarrow> x)"

section \<open>Run registration and lifecycle\<close>

text \<open>\<open>POST /test/new\<close>\<close>

definition new_handler :: "datetime \<Rightarrow> string \<Rightarrow> string \<Rightarrow> database \<Rightarrow> (error + reply) \<times> database" where
  "new_handler now n ps d =
     (case test_create now n ps d of
        Inl e \<Rightarrow> (Inl e, d)
      | Inr (t, d') \<Rightarrow> (Inr (Reply 200 [] (MessageId (''Test '' @ name t @ '' created'') (tid t))), d'))"

text \<open>\<open>POST /test/start\<close>\<close>

definition start_handler :: "datetime \<Rightarrow> string \<Rightarrow> database \<Rightarrow> (error + reply) \<times> database" where
  "start_handler now n d =
     (case test_update (\<lambda>t. name t = n \<and> startedAt t = None)
                       (\<lambda>t. t\<lparr>startedAt := Some now, finishedAt := None\<rparr>) d of
        Inl e \<Rightarrow> (Inl e, d)
      | Inr (t, d') \<Rightarrow> (Inr (Reply 200 [] (MessageId (''Test '' @ name t @ '' started'') (tid t))), d'))"

text \<open>\<open>POST /test/finish\<close>\<close>

definition finish_handler :: "datetime \<Rightarrow> string \<Rightarrow> database \<Rightarrow> (error + reply) \<times> database" where
  "finish_handler now n d =
     (case test_update (\<lambda>t. name t = n) (\<lambda>t. t\<lparr>finishedAt := Some now\<rparr>) d of
        Inl e \<Rightarrow> (Inl e, d)
      | Inr (t, d') \<Rightarrow> (Inr (Reply 200 [] (Status ''finished'')), d'))"

text \<open>\<open>GET /public/test/:name/info\<close>, behind the bearer gate\<close>

definition files_of :: "database \<Rightarrow> Test \<Rightarrow> File list" where
  "files_of d t = filter (\<lambda>f. testId f = tid t) (files d)"

definition info_handler :: "string \<Rightarrow> database \<Rightarrow> reply" where
  "info_handler n d =
     (case test_findUnique d n of
        Some t \<Rightarrow> Reply 200 [] (TestWithFiles t (files_of d t))
      | None \<Rightarrow> Reply 404 [] (ErrorMsg ''Not found''))"

section \<open>Authentication gate\<close>

text \<open>
  The process configuration read at start-up: the artifact-store root and the shared
  secret (\<open>None\<close> when the variable is not set).
\<close>

record config =
  upload_path :: string
  bearerToken :: "string option"

text \<open>
  \<open>Buffer.from(s)\<close> encodes a string in UTF-8. A \<open>char\<close> is a code unit below 256,
  which is what the HTTP parser delivers for a header value: one byte below 128, two
  bytes from there on. The secret is taken from the same range; one with a character
  beyond it equals no header value.
\<close>

type_synonym bytes = "8 word list"

definition utf8_char :: "char \<Rightarrow> bytes" where
  "utf8_char c =
     (let n = (of_char c :: nat)
      in if n < 128 then [of_nat n] else [of_nat (192 + n div 64), of_nat (128 + n mod 64)])"

definition Buffer_from :: "string \<Rightarrow> bytes" where
  "Buffer_from s = concat (map utf8_char s)"

text \<open>
  \<open>crypto.timingSafeEqual(a, b)\<close> throws on buffers of different lengths; on buffers
  of one length it accumulates the differences of all byte pairs, without stopping at
  the first one.
\<close>

definition timingSafeEqual :: "bytes \<Rightarrow> bytes \<Rightarrow> error + bool" where
  "timingSafeEqual a b =
     (if length a \<noteq> length b then Inl (JsError ''ERR_CRYPTO_TIMING_SAFE_EQUAL_LENGTH'')
      else Inr (fold (\<lambda>(x, y) acc. or acc (xor x y)) (zip a b) 0 = 0))"

definition startsWith :: "string \<Rightarrow> string \<Rightarrow> bool" where
  "startsWith s p = (take (length p) s = p)"

definition unauthorized :: "string \<Rightarrow> reply" where
  "unauthorized msg = Reply 401 [] (ErrorMsg msg)"

text \<open>
  \<open>bearerAuthHook\<close>: \<open>Inr None\<close> when the hook returns without replying, so that the
  route's handler runs; \<open>Inr (Some r)\<close> when it has sent the reply \<open>r\<close>. An unset and
  an empty string are both falsy.
\<close>

definition bearerAuthHook :: "string option \<Rightarrow> string option \<Rightarrow> error + reply option" where
  "bearerAuthHook secret authorization =
     (case secret of
        None \<Rightarrow> Inr (Some (unauthorized ''Authentication is not configured''))
      | Some expected \<Rightarrow>
          if expected = [] then Inr (Some (unauthorized ''Authentication is not configured''))
          else (case authorization of
             None \<Rightarrow> Inr (Some (unauthorized ''Missing or invalid authorization header''))
           | Some auth \<Rightarrow>
               if auth = [] \<or> \<not> startsWith auth ''Bearer ''
               then Inr (Some (unauthorized ''Missing or invalid authorization header''))
               else
                 let token = drop (length ''Bearer '') auth;
                     tokenBuffer = Buffer_from token;
                     expectedBuffer = Buffer_from expected
                 in if length tokenBuffer \<noteq> length expectedBuffer
                    then Inr (Some (unauthorized ''Invalid token''))
                    else (case timingSafeEqual tokenBuffer expectedBuffer of
                            Inl e \<Rightarrow> Inl e
                          | Inr same \<Rightarrow>
                              if \<not> same then Inr (Some (unauthorized ''Invalid token''))
                              else Inr None)))"

section \<open>POSIX paths\<close>

text \<open>\<open>s.split("/")\<close>: the segments between the separators, empty ones included.\<close>

fun split_sep :: "string \<Rightarrow> string list" where
  "split_sep [] = [[]]"
| "split_sep (c # cs) =
     (if c = CHR ''/'' then [] # split_sep cs
      else (case split_sep cs of [] \<Rightarrow> [[c]] | seg # segs \<Rightarrow> (c # seg) # segs))"

fun join_sep :: "string list \<Rightarrow> string" where
  "join_sep [] = []"
| "join_sep [x] = x"
| "join_sep (x # y # ys) = x @ ''/'' @ join_sep (y # ys)"

text \<open>
  One step of \<open>normalizeString\<close>: an empty segment and \<open>.\<close> are dropped, \<open>..\<close> removes
  the segment before it, unless there is none or it is \<open>..\<close> itself, and then stays
  only in a relative path.
\<close>

definition norm_step :: "bool \<Rightarrow> string list \<Rightarrow> string \<Rightarrow> string list" where
  "norm_step allowAboveRoot res seg =
     (if seg = [] \<or> seg = ''.'' then res
      else if seg = ''..'' then
        (if res \<noteq> [] \<and> last res \<noteq> ''..'' then butlast res
         else if allowAboveRoot then res @ [''..''] else res)
      else res @ [seg])"

definition resolve_segments :: "bool \<Rightarrow> string \<Rightarrow> string list" where
  "resolve_segments allowAboveRoot p = foldl (norm_step allowAboveRoot) [] (split_sep p)"

definition normalizeString :: "string \<Rightarrow> bool \<Rightarrow> string" where
  "normalizeString p allowAboveRoot = join_sep (resolve_segments allowAboveRoot p)"

definition isAbsolute :: "string \<Rightarrow> bool" where
  "isAbsolute p = (case p of [] \<Rightarrow> False | c # _ \<Rightarrow> c = CHR ''/'')"

definition trailingSeparator :: "string \<Rightarrow> bool" where
  "trailingSeparator p = (case rev p of [] \<Rightarrow> False | c # _ \<Rightarrow> c = CHR ''/'')"

text \<open>\<open>path.normalize\<close>\<close>

definition normalize :: "string \<Rightarrow> string" where
  "normalize p =
     (if p = [] then ''.''
      else
        let q = normalizeString p (\<not> isAbsolute p)
        in if q = [] then (if isAbsolute p then ''/'' else if trailingSeparator p then ''./'' else ''.'')
           else
             let q' = (if trailingSeparator p then q @ ''/'' else q)
             in if isAbsolute p then ''/'' @ q' else q')"

text \<open>\<open>path.join\<close>: the non-empty arguments, joined by the separator and normalized.\<close>

definition path_join :: "string list \<Rightarrow> string" where
  "path_join args =
     (let joined = join_sep (filter (\<lambda>a. a \<noteq> []) args)
      in if joined = [] then ''.'' else normalize joined)"

text \<open>
  \<open>path.basename\<close>: trailing separators are dropped, and what follows the last remaining
  separator is returned.
\<close>

definition basename :: "string \<Rightarrow> string" where
  "basename p =
     rev (takeWhile (\<lambda>c. c \<noteq> CHR ''/'') (dropWhile (\<lambda>c. c = CHR ''/'') (rev p)))"

section \<open>Artifact store\<close>

text \<open>
  The file system, as far as the handlers use it. A location is a place in the tree:
  whether it is reached from the root or from the working directory, and the names that
  lead to it (with \<open>..\<close> only in front, for the directories above the working
  directory). The root, the working directory and the directories above it always exist.
  Symbolic links are left out, and so are failures that come from outside the program
  (permissions, a full disk, an upload cut off at the transport limit).
\<close>

datatype node = Dir | Regular bytes

type_synonym location = "bool \<times> string list"

type_synonym filesystem = "location \<Rightarrow> node option"

text \<open>Where a path leads if every directory on the way exists: its segments, resolved.\<close>

definition locate :: "string \<Rightarrow> location" where
  "locate p = (isAbsolute p, resolve_segments (\<not> isAbsolute p) p)"

definition node_at :: "filesystem \<Rightarrow> location \<Rightarrow> node option" where
  "node_at s k = (if list_all (\<lambda>seg. seg = ''..'') (snd k) then Some Dir else s k)"

text \<open>
  The lookup of the kernel: segment by segment, each one taken from a directory that is
  there. A missing directory or a regular file on the way ends the lookup, also when
  \<open>..\<close> or a separator follows it. A path with a null character is refused by
  \<open>fs\<close> before any lookup: \<open>existsSync\<close> answers false, the other calls throw.
\<close>

fun resolve_from :: "filesystem \<Rightarrow> bool \<Rightarrow> string list \<Rightarrow> string list \<Rightarrow> location option" where
  "resolve_from s a cur [] = Some (a, cur)"
| "resolve_from s a cur (seg # segs) =
     (case node_at s (a, cur) of
        Some Dir \<Rightarrow> resolve_from s a (norm_step (\<not> a) cur seg) segs
      | Some (Regular other) \<Rightarrow> None
      | None \<Rightarrow> None)"

definition stat :: "filesystem \<Rightarrow> string \<Rightarrow> node option" where
  "stat s p =
     (if p = [] \<or> CHR 0x00 \<in> set p then None
      else (case resolve_from s (isAbsolute p) [] (split_sep p) of
              None \<Rightarrow> None
            | Some k \<Rightarrow> node_at s k))"

text \<open>\<open>fs.existsSync\<close>\<close>

definition existsSync :: "filesystem \<Rightarrow> string \<Rightarrow> bool" where
  "existsSync s p = (stat s p \<noteq> None)"

text \<open>
  \<open>fs.mkdirSync(p, { recursive: true })\<close>: every missing directory on the way is
  created; a regular file on the way is an error.
\<close>

fun mkdir_from :: "bool \<Rightarrow> string list \<Rightarrow> string list \<Rightarrow> filesystem \<Rightarrow> error + filesystem" where
  "mkdir_from a cur [] s = Inr s"
| "mkdir_from a cur (seg # segs) s =
     (case node_at s (a, norm_step (\<not> a) cur seg) of
        Some (Regular other) \<Rightarrow> Inl (IoError ''ENOTDIR'')
      | Some Dir \<Rightarrow> mkdir_from a (norm_step (\<not> a) cur seg) segs s
      | None \<Rightarrow>
          mkdir_from a (norm_step (\<not> a) cur seg) segs (s((a, norm_step (\<not> a) cur seg) \<mapsto> Dir)))"

definition mkdirSync :: "filesystem \<Rightarrow> string \<Rightarrow> error + filesystem" where
  "mkdirSync s p =
     (if CHR 0x00 \<in> set p then Inl (JsError ''ERR_INVALID_ARG_VALUE'')
      else mkdir_from (isAbsolute p) [] (split_sep p) s)"

text \<open>
  \<open>pipeline(data.file, fs.createWriteStream(p))\<close>: the directory of \<open>p\<close> is looked
  up; the bytes then replace the regular file of the last name or make a new one. A
  directory cannot be opened for writing, and a path that ends in a separator, in \<open>.\<close>
  or in \<open>..\<close> names one.
\<close>

definition write_file :: "filesystem \<Rightarrow> string \<Rightarrow> bytes \<Rightarrow> error + filesystem" where
  "write_file s p bs =
     (if CHR 0x00 \<in> set p then Inl (JsError ''ERR_INVALID_ARG_VALUE'')
      else case rev (split_sep p) of
        [] \<Rightarrow> Inl (IoError ''ENOENT'')
      | seg # dirs \<Rightarrow>
          (case resolve_from s (isAbsolute p) [] (rev dirs) of
             None \<Rightarrow> Inl (IoError ''ENOENT'')
           | Some d \<Rightarrow>
               (case node_at s d of
                  None \<Rightarrow> Inl (IoError ''ENOENT'')
                | Some (Regular other) \<Rightarrow> Inl (IoError ''ENOTDIR'')
                | Some Dir \<Rightarrow>
                    if seg = [] \<or> seg = ''.'' \<or> seg = ''..'' then Inl (IoError ''EISDIR'')
                    else (case node_at s (fst d, snd d @ [seg]) of
                            Some Dir \<Rightarrow> Inl (IoError ''EISDIR'')
                          | Some (Regular old) \<Rightarrow> Inr (s((fst d, snd d @ [seg]) \<mapsto> Regular bs))
                          | None \<Rightarrow> Inr (s((fst d, snd d @ [seg]) \<mapsto> Regular bs))))))"

section \<open>Artifact upload\<close>

text \<open>What \<open>req.file()\<close> yields for a file part: its file name, if it has one, and its bytes.\<close>

record upload =
  filename :: "string option"
  content :: bytes

text \<open>
  The body of a request to the upload route: not multipart at all, or multipart with its
  first file part, if it has one. \<open>req.file()\<close> throws on the first and yields the
  part, or nothing, on the second.
\<close>

datatype upload_body = NotMultipart | Multipart "upload option"

definition req_file :: "upload_body \<Rightarrow> error + upload option" where
  "req_file rb = (case rb of NotMultipart \<Rightarrow> Inl NotMultipartError | Multipart data \<Rightarrow> Inr data)"

record world =
  db :: database
  disk :: filesystem

text \<open>The store and file-system operations a handler performs, in order.\<close>

datatype effect =
    DbFindTest string
  | FsExists string
  | FsMkdir string
  | FsWrite string
  | DbCreateFile string

text \<open>
  \<open>prisma.file.create\<close>: the handler gives no \<open>uid\<close> and no \<open>size\<close>; the first is
  generated (the generator is outside the program, its value \<open>u\<close> is a parameter), the
  second takes its default 0. The unique index on \<open>uid\<close> rejects a duplicate.
\<close>

definition file_create :: "string \<Rightarrow> string \<Rightarrow> string \<Rightarrow> nat \<Rightarrow> database \<Rightarrow> error + File \<times> database" where
  "file_create u oname p t d =
     (case find (\<lambda>f. uid f = u) (files d) of
        Some _ \<Rightarrow> Inl UniqueConstraintFailed
      | None \<Rightarrow>
          let i = next_id (file_seq d) (map fid (files d));
              f = \<lparr>fid = i, uid = u, originalName = oname, path = p, fsize = 0, testId = t\<rparr>
          in Inr (f, d\<lparr>files := files d @ [f], file_seq := i\<rparr>))"

text \<open>\<open>data.filename || "upload"\<close>\<close>

definition filename_or_upload :: "upload \<Rightarrow> string" where
  "filename_or_upload dat =
     (case filename dat of None \<Rightarrow> ''upload'' | Some f \<Rightarrow> if f = [] then ''upload'' else f)"

text \<open>The directory of a test and the path an upload is written to.\<close>

definition test_dir :: "config \<Rightarrow> Test \<Rightarrow> string" where
  "test_dir cfg t = path_join [upload_path cfg, name t]"

definition file_path :: "config \<Rightarrow> Test \<Rightarrow> upload \<Rightarrow> string" where
  "file_path cfg t dat = path_join [test_dir cfg t, basename (filename_or_upload dat)]"

text \<open>The \<open>try\<close> block: the test's directory is created unless something is there.\<close>

definition ensure_dir :: "filesystem \<Rightarrow> string \<Rightarrow> error + filesystem" where
  "ensure_dir s dir = (if \<not> existsSync s dir then mkdirSync s dir else Inr s)"

definition dir_effects :: "filesystem \<Rightarrow> string \<Rightarrow> effect list" where
  "dir_effects s dir = FsExists dir # (if existsSync s dir then [] else [FsMkdir dir])"

text \<open>
  \<open>POST /test/:name/upload/file\<close>. The third component lists what the handler has done
  to the store and the file system. A part without a file name is written under the name
  \<open>upload\<close>, and the insert then fails for the missing \<open>originalName\<close>.
\<close>

definition upload_handler ::
  "config \<Rightarrow> string \<Rightarrow> string \<Rightarrow> upload_body \<Rightarrow> world \<Rightarrow> (error + reply) \<times> world \<times> effect list" where
  "upload_handler cfg u n rb w =
     (case req_file rb of
        Inl e \<Rightarrow> (Inl e, w, [])
      | Inr None \<Rightarrow> (Inl (JsError ''No file uploaded''), w, [])
      | Inr (Some dat) \<Rightarrow>
          (case test_findUnique (db w) n of
             None \<Rightarrow> (Inr (Reply 404 [] (ErrorMsg ''Test not found'')), w, [DbFindTest n])
           | Some t \<Rightarrow>
               (case ensure_dir (disk w) (test_dir cfg t) of
                  Inl e \<Rightarrow>
                    (Inr (Reply 500 [] (ErrorMsg ''Failed to create upload directory'')), w,
                     DbFindTest n # dir_effects (disk w) (test_dir cfg t))
                | Inr s1 \<Rightarrow>
                    (case write_file s1 (file_path cfg t dat) (content dat) of
                       Inl e \<Rightarrow>
                         (Inl e, w\<lparr>disk := s1\<rparr>,
                          DbFindTest n # dir_effects (disk w) (test_dir cfg t) @
                          [FsWrite (file_path cfg t dat)])
                     | Inr s2 \<Rightarrow>
                         (case filename dat of
                            None \<Rightarrow>
                              (Inl ValidationError, w\<lparr>disk := s2\<rparr>,
                               DbFindTest n # dir_effects (disk w) (test_dir cfg t) @
                               [FsWrite (file_path cfg t dat)])
                          | Some oname \<Rightarrow>
                              (case file_create u oname (file_path cfg t dat) (tid t) (db w) of
                                 Inl e \<Rightarrow>
                                   (Inl e, w\<lparr>disk := s2\<rparr>,
                                    DbFindTest n # dir_effects (disk w) (test_dir cfg t) @
                                    [FsWrite (file_path cfg t dat), DbCreateFile (file_path cfg t dat)])
                               | Inr (f, d') \<Rightarrow>
                                   (Inr (Reply 200 [] (Message ''File uploaded successfully'')),
                                    \<lparr>db = d', disk = s2\<rparr>,
                                    DbFindTest n # dir_effects (disk w) (test_dir cfg t) @
                                    [FsWrite (file_path cfg t dat),
                                     DbCreateFile (file_path cfg t dat)])))))))"

section \<open>Artifact retrieval\<close>

text \<open>The test \<open>/^\d+$/\<close>.\<close>

definition is_digits :: "string \<Rightarrow> bool" where
  "is_digits i = (i \<noteq> [] \<and> list_all (\<lambda>c. c \<in> set ''0123456789'') i)"

text \<open>
  \<open>Number(id)\<close> on a string of digits: the decimal value, rounded to the nearest number
  with 53 significant bits, to the even one of two that are equally near. (Beyond the
  largest finite double the source has Infinity; the lookup rejects both alike.)
\<close>

fun bit_length :: "nat \<Rightarrow> nat" where
  "bit_length n = (if n = 0 then 0 else Suc (bit_length (n div 2)))"

definition decimal :: "string \<Rightarrow> nat" where
  "decimal i = foldl (\<lambda>acc c. 10 * acc + (of_char c - 48)) 0 i"

definition to_double :: "nat \<Rightarrow> nat" where
  "to_double n =
     (if bit_length n \<le> 53 then n
      else
        let e = bit_length n - 53;
            q = n div 2 ^ e;
            r = n mod 2 ^ e;
            half = 2 ^ (e - 1)
        in (if half < r \<or> (r = half \<and> odd q) then q + 1 else q) * 2 ^ e)"

definition Number :: "string \<Rightarrow> nat" where
  "Number i = to_double (decimal i)"

text \<open>
  The \<open>where\<close> argument the two handlers build: always a condition on the column
  \<open>id\<close>, with a number or with the string of the request.
\<close>

datatype file_where = IdNumber nat | IdString string

definition where_of :: "string \<Rightarrow> file_where" where
  "where_of i = (if is_digits i then IdNumber (Number i) else IdString i)"

text \<open>
  \<open>prisma.file.findUnique({ where })\<close>: \<open>id\<close> is the integer key of the table, so the
  client rejects a string there, and a number that does not fit 64 bits with a sign; no
  query on \<open>uid\<close> is made.
\<close>

definition file_findUnique :: "database \<Rightarrow> file_where \<Rightarrow> error + File option" where
  "file_findUnique d wh =
     (case wh of
        IdNumber k \<Rightarrow>
          if 2 ^ 63 \<le> k then Inl ValidationError else Inr (find (\<lambda>f. fid f = k) (files d))
      | IdString _ \<Rightarrow> Inl ValidationError)"

text \<open>
  A header value may hold a tab, the printable characters of ASCII and the code units
  from 128 on; setting a header with any other character throws.
\<close>

definition valid_header_char :: "char \<Rightarrow> bool" where
  "valid_header_char c =
     ((of_char c :: nat) = 9 \<or> (32 \<le> (of_char c :: nat) \<and> (of_char c :: nat) \<le> 126)
      \<or> 128 \<le> (of_char c :: nat))"

definition valid_header_value :: "string \<Rightarrow> bool" where
  "valid_header_value v = list_all valid_header_char v"

text \<open>
  \<open>reply.send(fs.createReadStream(p))\<close> with the headers set before: the headers are
  handed to the response first, then the file is read. A header value that is refused
  and a path that cannot be read as a file both end in a thrown error.
\<close>

definition send_stream :: "filesystem \<Rightarrow> (string \<times> string) list \<Rightarrow> string \<Rightarrow> error + reply" where
  "send_stream s hs p =
     (if \<not> list_all valid_header_value (map snd hs) then Inl (JsError ''ERR_INVALID_CHAR'')
      else (case stat s p of
              Some (Regular bs) \<Rightarrow> Inr (Reply 200 hs (FileStream bs))
            | Some Dir \<Rightarrow> Inl (IoError ''EISDIR'')
            | None \<Rightarrow> Inl (IoError ''ENOENT'')))"

definition display_name :: "File \<Rightarrow> string" where
  "display_name f = (if originalName f \<noteq> [] then basename (originalName f) else basename (path f))"

definition quoted :: "string \<Rightarrow> string" where
  "quoted x = [CHR 0x22] @ x @ [CHR 0x22]"

text \<open>\<open>GET /public/file/:id/download\<close>\<close>

definition download_handler :: "string \<Rightarrow> world \<Rightarrow> error + reply" where
  "download_handler i w =
     (case file_findUnique (db w) (where_of i) of
        Inl e \<Rightarrow> Inl e
      | Inr None \<Rightarrow> Inr (Reply 404 [] (ErrorMsg ''File not found''))
      | Inr (Some f) \<Rightarrow>
          if \<not> existsSync (disk w) (path f)
          then Inr (Reply 404 [] (ErrorMsg ''File is missing on disk''))
          else send_stream (disk w)
                 [(''Content-Disposition'', ''attachment; filename='' @ quoted (display_name f))]
                 (path f))"

text \<open>\<open>GET /public/file/:id/view\<close>\<close>

definition view_handler :: "string \<Rightarrow> world \<Rightarrow> error + reply" where
  "view_handler i w =
     (case file_findUnique (db w) (where_of i) of
        Inl e \<Rightarrow> Inl e
      | Inr None \<Rightarrow> Inr (Reply 404 [] (ErrorMsg ''File not found''))
      | Inr (Some f) \<Rightarrow>
          if \<not> existsSync (disk w) (path f)
          then Inr (Reply 404 [] (ErrorMsg ''File is missing on disk''))
          else send_stream (disk w)
                 [(''Content-Type'', ''text/html; charset=utf-8''),
                  (''Content-Disposition'', ''inline; filename='' @ quoted (display_name f))]
                 (path f))"

section \<open>Listing and the workflow trigger\<close>

text \<open>
  \<open>GET /public/test/list\<close>: newest first; rows of one creation time stay in the order
  of the table.
\<close>

definition list_handler :: "database \<Rightarrow> reply" where
  "list_handler d =
     Reply 200 []
       (TestSummaries
          (map (\<lambda>t. (t, map (\<lambda>f. (fid f, originalName f)) (files_of d t)))
               (sort_key (\<lambda>t. - int (createdAt t)) (tests d))))"

text \<open>
  \<open>POST /public/test/run\<close>: the outcome of the dispatch call is decided outside the
  program; \<open>None\<close> when it returns, \<open>Some e\<close> when it throws \<open>e\<close>.
\<close>

definition run_handler :: "string option \<Rightarrow> reply" where
  "run_handler outcome =
     (case outcome of
        None \<Rightarrow> Reply 204 [] (Message ''Workflow l2-arkiv.yml triggered successfully'')
      | Some e \<Rightarrow> Reply 500 [] (ErrorMsg (''Failed to trigger workflow '' @ e)))"

section \<open>The routes\<close>

text \<open>
  The requests the routes accept. \<open>PostUpload\<close> is a multipart request to the upload
  route, with its file part if it has one; \<open>PostUploadNotMultipart\<close> is a request to the
  same route with any other content type.
\<close>

datatype request =
    PostTestNew string string
  | PostTestStart string
  | PostTestFinish string
  | PostUpload string "upload option"
  | PostUploadNotMultipart string
  | PostRun "string option"
  | GetInfo "string option" string
  | GetDownload string
  | GetView string
  | GetList "string option"

text \<open>What a request takes from outside: the clock, the generated uid, the dispatch outcome.\<close>

record env =
  clock :: datetime
  fresh_uid :: string
  dispatch :: "string option"

text \<open>A route with \<open>preHandler: bearerAuthHook\<close>: the handler runs only if the hook lets it.\<close>

definition guarded :: "config \<Rightarrow> string option \<Rightarrow> reply \<Rightarrow> reply" where
  "guarded cfg authorization r =
     (case bearerAuthHook (bearerToken cfg) authorization of
        Inl e \<Rightarrow> fastify_reply (Inl e)
      | Inr (Some denied) \<Rightarrow> denied
      | Inr None \<Rightarrow> r)"

definition serve :: "config \<Rightarrow> env \<Rightarrow> request \<Rightarrow> world \<Rightarrow> reply \<times> world" where
  "serve cfg e rq w =
     (case rq of
        PostTestNew n ps \<Rightarrow>
          (case new_handler (clock e) n ps (db w) of (r, d') \<Rightarrow> (fastify_reply r, w\<lparr>db := d'\<rparr>))
      | PostTestStart n \<Rightarrow>
          (case start_handler (clock e) n (db w) of (r, d') \<Rightarrow> (fastify_reply r, w\<lparr>db := d'\<rparr>))
      | PostTestFinish n \<Rightarrow>
          (case finish_handler (clock e) n (db w) of (r, d') \<Rightarrow> (fastify_reply r, w\<lparr>db := d'\<rparr>))
      | PostUpload n data \<Rightarrow>
          (case upload_handler cfg (fresh_uid e) n (Multipart data) w of
             (r, w', _) \<Rightarrow> (fastify_reply r, w'))
      | PostUploadNotMultipart n \<Rightarrow>
          (case upload_handler cfg (fresh_uid e) n NotMultipart w of
             (r, w', _) \<Rightarrow> (fastify_reply r, w'))
      | PostRun authorization \<Rightarrow> (guarded cfg authorization (run_handler (dispatch e)), w)
      | GetInfo authorization n \<Rightarrow> (guarded cfg authorization (info_handler n (db w)), w)
      | GetDownload i \<Rightarrow> (fastify_reply (download_handler i w), w)
      | GetView i \<Rightarrow> (fastify_reply (view_handler i w), w)
      | GetList authorization \<Rightarrow> (guarded cfg authorization (list_handler (db w)), w))"

section \<open>Example states\<close>

definition empty_db :: database where
  "empty_db = \<lparr>tests = [], files = [], test_seq = 0, file_seq = 0\<rparr>"

definition one_run :: database where
  "one_run = \<lparr>tests = [\<lparr>tid = 1, name = ''run1'', createdAt = 5, startedAt = None,
                          finishedAt = None, parameters = ''{}''\<rparr>],
              files = [], test_seq = 1, file_seq = 0\<rparr>"

definition cfg0 :: config where
  "cfg0 = \<lparr>upload_path = ''/srv/uploads'', bearerToken = Some ''s3cret''\<rparr>"

definition env0 :: env where
  "env0 = \<lparr>clock = 9, fresh_uid = ''u1'', dispatch = None\<rparr>"

definition fresh_world :: world where
  "fresh_world = \<lparr>db = one_run, disk = Map.empty\<rparr>"

definition out_log :: File where
  "out_log = \<lparr>fid = 1, uid = ''c0ffee'', originalName = ''out.log'',
              path = ''/srv/uploads/run1/out.log'', fsize = 0, testId = 1\<rparr>"

definition stored_db :: database where
  "stored_db = one_run\<lparr>files := [out_log], file_seq := 1\<rparr>"

definition stored_disk :: filesystem where
  "stored_disk =
     [(True, [''srv'']) \<mapsto> Dir,
      (True, [''srv'', ''uploads'']) \<mapsto> Dir,
      (True, [''srv'', ''uploads'', ''run1'']) \<mapsto> Dir,
      (True, [''srv'', ''uploads'', ''run1'', ''out.log'']) \<mapsto> Regular [104, 105]]"

text \<open>One artifact on record and on disk; and the same record after the file was removed.\<close>

definition stored :: world where
  "stored = \<lparr>db = stored_db, disk = stored_disk\<rparr>"

definition removed :: world where
  "removed = \<lparr>db = stored_db, disk = Map.empty\<rparr>"

text \<open>What identifies a row of Test: the columns that no handler rewrites.\<close>

definition row_identity :: "Test \<Rightarrow> nat \<times> string \<times> datetime \<times> string" where
  "row_identity t = (tid t, name t, createdAt t, parameters t)"

text \<open>
  A segment that names an entry: not empty, not \<open>.\<close> or \<open>..\<close>, and without a separator.
\<close>

definition plain :: "string \<Rightarrow> bool" where
  "plain seg = (seg \<noteq> [] \<and> seg \<noteq> ''.'' \<and> seg \<noteq> ''..'' \<and> CHR ''/'' \<notin> set seg)"

text \<open>A list of segments that resolving leaves as it is.\<close>

definition settled :: "bool \<Rightarrow> string list \<Rightarrow> bool" where
  "settled allow st = (foldl (norm_step allow) [] st = st)"

text \<open>A location at or below another one.\<close>

definition within :: "location \<Rightarrow> location \<Rightarrow> bool" where
  "within root k = (fst k = fst root \<and> take (length (snd root)) (snd k) = snd root)"

text \<open>
  The service right after start-up, with its artifact root in place; the same after
  \<open>POST /test/new\<close> with the name \<open>..\<close>; and an upload of one byte.
\<close>

definition started_disk :: filesystem where
  "started_disk = [(True, [''srv'']) \<mapsto> Dir, (True, [''srv'', ''uploads'']) \<mapsto> Dir]"

definition escape_start :: world where
  "escape_start = \<lparr>db = empty_db, disk = started_disk\<rparr>"

definition escape_named :: world where
  "escape_named = snd (serve cfg0 env0 (PostTestNew ''..'' ''{}'') escape_start)"

definition dotdot_run :: Test where
  "dotdot_run = \<lparr>tid = 1, name = ''..'', createdAt = 9, startedAt = None,
                 finishedAt = None, parameters = ''{}''\<rparr>"

definition x_txt :: upload where
  "x_txt = \<lparr>filename = Some ''x.txt'', content = [120]\<rparr>"

text \<open>
  An upload whose file name holds the character DEL, the service before it and after it;
  and a File row whose path is a directory.
\<close>

definition run1 :: Test where
  "run1 = \<lparr>tid = 1, name = ''run1'', createdAt = 5, startedAt = None,
            finishedAt = None, parameters = ''{}''\<rparr>"

definition del_name :: string where
  "del_name = ''a'' @ [CHR 0x7F] @ ''b.log''"

definition del_log :: upload where
  "del_log = \<lparr>filename = Some del_name, content = [104, 105]\<rparr>"

definition del_row :: File where
  "del_row = \<lparr>fid = 1, uid = ''u1'', originalName = del_name,
              path = ''/srv/uploads/run1/'' @ del_name, fsize = 0, testId = 1\<rparr>"

definition del_start :: world where
  "del_start = \<lparr>db = one_run, disk = started_disk\<rparr>"

definition del_world :: world where
  "del_world = snd (serve cfg0 env0 (PostUpload ''run1'' (Some del_log)) del_start)"

definition del_disk :: filesystem where
  "del_disk = started_disk
     ((True, [''srv'', ''uploads'', ''run1'']) \<mapsto> Dir,
      (True, [''srv'', ''uploads'', ''run1'', del_name]) \<mapsto> Regular [104, 105])"

definition dir_row :: File where
  "dir_row = \<lparr>fid = 1, uid = ''c0ffee'', originalName = ''run1'',
              path = ''/srv/uploads/run1'', fsize = 0, testId = 1\<rparr>"

definition dir_world :: world where
  "dir_world = \<lparr>db = one_run\<lparr>files := [dir_row]\<rparr>, disk = stored_disk\<rparr>"

section \<open>Lookup in a table\<close>

lemma find_None_iff_set: "(find P xs = None) = (\<forall>x\<in>set xs. \<not> P x)"
  by (induction xs) auto

lemma find_Some_holds: "find P xs = Some x \<Longrightarrow> P x \<and> x \<in> set xs"
  by (induction xs) (auto split: if_splits)

section \<open>Starting a run\<close>

lemma start_handler_eq:
  "start_handler ts n d =
     (case find (\<lambda>t. name t = n \<and> startedAt t = None) (tests d) of
        None \<Rightarrow> (Inl RecordNotFound, d)
      | Some t \<Rightarrow>
         (Inr (Reply 200 [] (MessageId (''Test '' @ name t @ '' started'') (tid t))),
          d\<lparr>tests := map (\<lambda>x. if name x = n \<and> startedAt x = None
                            then x\<lparr>startedAt := Some ts, finishedAt := None\<rparr> else x) (tests d)\<rparr>))"
  by (simp add: start_handler_def test_update_def split: option.splits)

lemma start_isl:
  "isl (fst (start_handler ts n d)) \<longleftrightarrow> \<not> (\<exists>t\<in>set (tests d). name t = n \<and> startedAt t = None)"
proof (cases "find (\<lambda>t. name t = n \<and> startedAt t = None) (tests d)")
  case None
  then have "\<not> (\<exists>t\<in>set (tests d). name t = n \<and> startedAt t = None)"
    by (simp add: find_None_iff_set)
  then show ?thesis by (simp add: start_handler_eq None)
next
  case (Some t)
  from find_Some_holds [OF Some]
  have "\<exists>t\<in>set (tests d). name t = n \<and> startedAt t = None" by blast
  then show ?thesis by (simp add: start_handler_eq Some)
qed

lemma start_failure:
  "isl (fst (start_handler ts n d)) \<Longrightarrow> start_handler ts n d = (Inl RecordNotFound, d)"
  by (cases "find (\<lambda>t. name t = n \<and> startedAt t = None) (tests d)")
     (simp_all add: start_handler_eq)

lemma start_tests:
  "tests (snd (start_handler ts n d)) =
     map (\<lambda>x. if name x = n \<and> startedAt x = None
               then x\<lparr>startedAt := Some ts, finishedAt := None\<rparr> else x) (tests d)"
proof (cases "find (\<lambda>t. name t = n \<and> startedAt t = None) (tests d)")
  case None
  then have "\<forall>x\<in>set (tests d). \<not> (name x = n \<and> startedAt x = None)"
    by (simp add: find_None_iff_set)
  then have "map (\<lambda>x. if name x = n \<and> startedAt x = None
               then x\<lparr>startedAt := Some ts, finishedAt := None\<rparr> else x) (tests d) = tests d"
    by (intro map_idI) auto
  then show ?thesis by (simp add: start_handler_eq None)
next
  case (Some t)
  show ?thesis by (simp add: start_handler_eq Some)
qed

lemma start_files: "files (snd (start_handler ts n d)) = files d"
  by (cases "find (\<lambda>t. name t = n \<and> startedAt t = None) (tests d)")
     (simp_all add: start_handler_eq)

lemma start_no_longer_unstarted:
  "find (\<lambda>t. name t = n \<and> startedAt t = None) (tests (snd (start_handler ts n d))) = None"
proof -
  have "find P (map (\<lambda>x. if P x then f x else x) xs) = None" if "\<And>x. \<not> P (f x)"
    for P :: "Test \<Rightarrow> bool" and f xs
    using that by (induction xs) simp_all
  then show ?thesis unfolding start_tests by simp
qed

text \<open>
  C1. \<open>POST /test/start\<close> succeeds exactly when a row of that name has \<open>startedAt\<close>
  null. Every such row gets \<open>startedAt\<close> set to the current time and \<open>finishedAt\<close> to
  null, and every other row, one already started among them, stays as it is. When no row
  matches, the call throws and the database is unchanged. A second call for the same name
  throws in every case, so it cannot move \<open>startedAt\<close> forward.
\<close>

theorem start_only_from_null:
  fixes ts :: datetime and n :: string and d :: database
  defines "r \<equiv> fst (start_handler ts n d)" and "d' \<equiv> snd (start_handler ts n d)"
  shows "(isl r \<longleftrightarrow> \<not> (\<exists>t\<in>set (tests d). name t = n \<and> startedAt t = None))
       \<and> (isl r \<longrightarrow> r = Inl RecordNotFound \<and> d' = d)
       \<and> length (tests d') = length (tests d)
       \<and> files d' = files d
       \<and> (\<forall>i<length (tests d).
            tests d' ! i =
              (if name (tests d ! i) = n \<and> startedAt (tests d ! i) = None
               then (tests d ! i)\<lparr>startedAt := Some ts, finishedAt := None\<rparr>
               else tests d ! i))
       \<and> start_handler later n d' = (Inl RecordNotFound, d')"
proof (intro conjI)
  show "isl r \<longleftrightarrow> \<not> (\<exists>t\<in>set (tests d). name t = n \<and> startedAt t = None)"
    unfolding r_def by (rule start_isl)
  show "isl r \<longrightarrow> r = Inl RecordNotFound \<and> d' = d"
  proof
    assume "isl r"
    then have "start_handler ts n d = (Inl RecordNotFound, d)"
      unfolding r_def by (rule start_failure)
    then show "r = Inl RecordNotFound \<and> d' = d"
      unfolding r_def d'_def by (simp only: fst_conv snd_conv)
  qed
  show "length (tests d') = length (tests d)"
    unfolding d'_def by (simp add: start_tests)
  show "files d' = files d"
    unfolding d'_def by (rule start_files)
  show "\<forall>i<length (tests d).
            tests d' ! i =
              (if name (tests d ! i) = n \<and> startedAt (tests d ! i) = None
               then (tests d ! i)\<lparr>startedAt := Some ts, finishedAt := None\<rparr>
               else tests d ! i)"
    unfolding d'_def by (simp add: start_tests)
  have "find (\<lambda>t. name t = n \<and> startedAt t = None) (tests d') = None"
    unfolding d'_def by (rule start_no_longer_unstarted)
  then show "start_handler later n d' = (Inl RecordNotFound, d')"
    by (simp add: start_handler_eq)
qed

theorem start_only_from_null_witness:
  "\<not> isl (fst (start_handler 7 ''run1'' one_run))
   \<and> tests (snd (start_handler 7 ''run1'' one_run)) ! 0 =
       \<lparr>tid = 1, name = ''run1'', createdAt = 5, startedAt = Some 7,
        finishedAt = None, parameters = ''{}''\<rparr>
   \<and> start_handler 9 ''run1'' (snd (start_handler 7 ''run1'' one_run)) =
       (Inl RecordNotFound, snd (start_handler 7 ''run1'' one_run))"
  using start_only_from_null [of 7 "''run1''" one_run 9]
  by (simp add: one_run_def)

section \<open>Registering a run\<close>

lemma find_append_new:
  "find P xs = None \<Longrightarrow> P x \<Longrightarrow> find P (xs @ [x]) = Some x"
  by (induction xs) (auto split: if_splits)

lemma new_handler_eq:
  "new_handler ts n ps d =
     (case find (\<lambda>t. name t = n) (tests d) of
        Some t \<Rightarrow> (Inl UniqueConstraintFailed, d)
      | None \<Rightarrow>
         (Inr (Reply 200 [] (MessageId (''Test '' @ n @ '' created'')
                 (next_id (test_seq d) (map tid (tests d))))),
          d\<lparr>tests := tests d @
                 [\<lparr>tid = next_id (test_seq d) (map tid (tests d)), name = n, createdAt = ts,
                   startedAt = None, finishedAt = None, parameters = ps\<rparr>],
            test_seq := next_id (test_seq d) (map tid (tests d))\<rparr>))"
  by (simp add: new_handler_def test_create_def test_findUnique_def Let_def split: option.splits)

lemma fold_max_init: "(a::nat) \<le> fold max xs a"
proof (induction xs arbitrary: a)
  case Nil
  show ?case by simp
next
  case (Cons x xs)
  have "a \<le> max x a" by simp
  also have "\<dots> \<le> fold max xs (max x a)" by (rule Cons.IH)
  finally show ?case by simp
qed

lemma fold_max_ge: "x \<in> set xs \<Longrightarrow> x \<le> fold max xs (a::nat)"
proof (induction xs arbitrary: a)
  case Nil
  then show ?case by simp
next
  case (Cons y ys)
  show ?case
  proof (cases "x = y")
    case True
    have "x \<le> max y a" using True by simp
    also have "\<dots> \<le> fold max ys (max y a)" by (rule fold_max_init)
    finally show ?thesis by simp
  next
    case False
    with Cons.prems have "x \<in> set ys" by simp
    then have "x \<le> fold max ys (max y a)" by (rule Cons.IH)
    then show ?thesis by simp
  qed
qed

lemma next_id_fresh: "next_id s ids \<notin> set ids"
proof
  assume "next_id s ids \<in> set ids"
  then have "next_id s ids \<le> fold max ids s" by (rule fold_max_ge)
  then show False by (simp add: next_id_def)
qed

text \<open>
  C4. \<open>POST /test/new\<close> with a name that a row already has throws the unique-constraint
  error, answered as a generic status 500, and changes nothing. With a new name it appends
  exactly one row, with a fresh id, \<open>createdAt\<close> the current time and \<open>startedAt\<close>,
  \<open>finishedAt\<close> null, and \<open>GET /public/test/:name/info\<close> then returns that row.
\<close>

theorem create_unique_name:
  fixes ts :: datetime and n ps :: string and d :: database
  defines "r \<equiv> fst (new_handler ts n ps d)" and "d' \<equiv> snd (new_handler ts n ps d)"
  shows "((\<exists>t\<in>set (tests d). name t = n) \<longrightarrow>
            r = Inl UniqueConstraintFailed \<and> d' = d
            \<and> fastify_reply r = Reply 500 [] (ServerError UniqueConstraintFailed))
       \<and> (\<not> (\<exists>t\<in>set (tests d). name t = n) \<longrightarrow>
            (\<exists>t. tests d' = tests d @ [t]
                 \<and> name t = n \<and> parameters t = ps \<and> createdAt t = ts
                 \<and> startedAt t = None \<and> finishedAt t = None
                 \<and> tid t \<notin> set (map tid (tests d))
                 \<and> r = Inr (Reply 200 [] (MessageId (''Test '' @ n @ '' created'') (tid t)))
                 \<and> test_findUnique d' n = Some t
                 \<and> info_handler n d' = Reply 200 [] (TestWithFiles t (files_of d' t)))
            \<and> files d' = files d)"
proof (cases "find (\<lambda>t. name t = n) (tests d)")
  case None
  then have no: "\<not> (\<exists>t\<in>set (tests d). name t = n)" by (simp add: find_None_iff_set)
  define t where "t = \<lparr>tid = next_id (test_seq d) (map tid (tests d)), name = n, createdAt = ts,
                   startedAt = None, finishedAt = None, parameters = ps\<rparr>"
  have r: "r = Inr (Reply 200 [] (MessageId (''Test '' @ n @ '' created'') (tid t)))"
    by (simp add: r_def new_handler_eq None t_def)
  have d': "d' = d\<lparr>tests := tests d @ [t], test_seq := tid t\<rparr>"
    by (simp add: d'_def new_handler_eq None t_def)
  have found: "test_findUnique d' n = Some t"
    unfolding test_findUnique_def d' using None by (simp add: find_append_new t_def)
  have info: "info_handler n d' = Reply 200 [] (TestWithFiles t (files_of d' t))"
    by (simp add: info_handler_def found)
  have fresh: "tid t \<notin> set (map tid (tests d))"
    using next_id_fresh [of "test_seq d" "map tid (tests d)"] by (simp add: t_def)
  have fields: "name t = n \<and> parameters t = ps \<and> createdAt t = ts
                 \<and> startedAt t = None \<and> finishedAt t = None"
    by (simp add: t_def)
  have "tests d' = tests d @ [t]" "files d' = files d" by (simp_all add: d')
  with no r found info fresh fields show ?thesis by blast
next
  case (Some t)
  from find_Some_holds [OF Some] have ex: "\<exists>t\<in>set (tests d). name t = n" by blast
  have "r = Inl UniqueConstraintFailed" "d' = d"
    by (simp_all add: r_def d'_def new_handler_eq Some)
  moreover from this have "fastify_reply r = Reply 500 [] (ServerError UniqueConstraintFailed)"
    by (simp add: fastify_reply_def status_of_def)
  ultimately show ?thesis using ex by blast
qed

theorem create_unique_name_witness:
  "fst (new_handler 8 ''run1'' ''{}'' one_run) = Inl UniqueConstraintFailed
   \<and> snd (new_handler 8 ''run1'' ''{}'' one_run) = one_run
   \<and> (\<exists>t. tests (snd (new_handler 5 ''run1'' ''{}'' empty_db)) = [t]
          \<and> name t = ''run1'' \<and> startedAt t = None \<and> finishedAt t = None
          \<and> info_handler ''run1'' (snd (new_handler 5 ''run1'' ''{}'' empty_db)) =
              Reply 200 [] (TestWithFiles t []))"
proof -
  have a: "\<exists>t\<in>set (tests one_run). name t = ''run1''" by (simp add: one_run_def)
  have b: "\<not> (\<exists>t\<in>set (tests empty_db). name t = ''run1'')" by (simp add: empty_db_def)
  have c: "files_of (snd (new_handler 5 ''run1'' ''{}'' empty_db)) t = []" for t
    by (simp add: files_of_def new_handler_eq empty_db_def)
  from a create_unique_name [of one_run "''run1''" 8 "''{}''"]
  have "fst (new_handler 8 ''run1'' ''{}'' one_run) = Inl UniqueConstraintFailed
   \<and> snd (new_handler 8 ''run1'' ''{}'' one_run) = one_run" by blast
  moreover from b create_unique_name [of empty_db "''run1''" 5 "''{}''"]
  have "\<exists>t. tests (snd (new_handler 5 ''run1'' ''{}'' empty_db)) = tests empty_db @ [t]
          \<and> name t = ''run1'' \<and> startedAt t = None \<and> finishedAt t = None
          \<and> info_handler ''run1'' (snd (new_handler 5 ''run1'' ''{}'' empty_db)) =
              Reply 200 [] (TestWithFiles t (files_of (snd (new_handler 5 ''run1'' ''{}'' empty_db)) t))"
    by blast
  then have "\<exists>t. tests (snd (new_handler 5 ''run1'' ''{}'' empty_db)) = [t]
          \<and> name t = ''run1'' \<and> startedAt t = None \<and> finishedAt t = None
          \<and> info_handler ''run1'' (snd (new_handler 5 ''run1'' ''{}'' empty_db)) =
              Reply 200 [] (TestWithFiles t [])"
    unfolding c by (simp add: empty_db_def)
  ultimately show ?thesis by blast
qed

section \<open>Finishing a run\<close>

lemma finish_handler_eq:
  "finish_handler ts n d =
     (case find (\<lambda>t. name t = n) (tests d) of
        None \<Rightarrow> (Inl RecordNotFound, d)
      | Some t \<Rightarrow>
         (Inr (Reply 200 [] (Status ''finished'')),
          d\<lparr>tests := map (\<lambda>x. if name x = n then x\<lparr>finishedAt := Some ts\<rparr> else x) (tests d)\<rparr>))"
  by (simp add: finish_handler_def test_update_def split: option.splits)

text \<open>
  C8, as amended. \<open>POST /test/finish\<close> sets \<open>finishedAt\<close> to the current time on the
  row of that name and leaves everything else. When no row has the name, the update
  throws the record-not-found error of the ORM; the handler does not catch it, so the
  answer is the generic status 500 and not a 404 reply, and the database is unchanged.
\<close>

theorem finish_sets_finishedAt:
  fixes ts :: datetime and n :: string and d :: database
  defines "r \<equiv> fst (finish_handler ts n d)" and "d' \<equiv> snd (finish_handler ts n d)"
  shows "((\<exists>t\<in>set (tests d). name t = n) \<longrightarrow>
            r = Inr (Reply 200 [] (Status ''finished''))
            \<and> tests d' = map (\<lambda>x. if name x = n then x\<lparr>finishedAt := Some ts\<rparr> else x) (tests d)
            \<and> files d' = files d)
       \<and> (\<not> (\<exists>t\<in>set (tests d). name t = n) \<longrightarrow>
            r = Inl RecordNotFound \<and> d' = d
            \<and> fastify_reply r = Reply 500 [] (ServerError RecordNotFound))"
proof (cases "find (\<lambda>t. name t = n) (tests d)")
  case None
  then have no: "\<not> (\<exists>t\<in>set (tests d). name t = n)" by (simp add: find_None_iff_set)
  have "r = Inl RecordNotFound" "d' = d"
    by (simp_all add: r_def d'_def finish_handler_eq None)
  moreover from this have "fastify_reply r = Reply 500 [] (ServerError RecordNotFound)"
    by (simp add: fastify_reply_def status_of_def)
  ultimately show ?thesis using no by blast
next
  case (Some t)
  from find_Some_holds [OF Some] have ex: "\<exists>t\<in>set (tests d). name t = n" by blast
  have "r = Inr (Reply 200 [] (Status ''finished''))"
    "tests d' = map (\<lambda>x. if name x = n then x\<lparr>finishedAt := Some ts\<rparr> else x) (tests d)"
    "files d' = files d"
    by (simp_all add: r_def d'_def finish_handler_eq Some)
  with ex show ?thesis by blast
qed

theorem finish_sets_finishedAt_witness:
  "tests (snd (finish_handler 9 ''run1'' one_run)) =
     [\<lparr>tid = 1, name = ''run1'', createdAt = 5, startedAt = None,
       finishedAt = Some 9, parameters = ''{}''\<rparr>]
   \<and> fastify_reply (fst (finish_handler 9 ''ghost'' one_run)) = Reply 500 [] (ServerError RecordNotFound)
   \<and> snd (finish_handler 9 ''ghost'' one_run) = one_run"
proof -
  have a: "\<exists>t\<in>set (tests one_run). name t = ''run1''" by (simp add: one_run_def)
  have b: "\<not> (\<exists>t\<in>set (tests one_run). name t = ''ghost'')" by (simp add: one_run_def)
  from a finish_sets_finishedAt [of one_run "''run1''" 9]
  have "tests (snd (finish_handler 9 ''run1'' one_run)) =
     map (\<lambda>x. if name x = ''run1'' then x\<lparr>finishedAt := Some 9\<rparr> else x) (tests one_run)"
    by blast
  then have "tests (snd (finish_handler 9 ''run1'' one_run)) =
     [\<lparr>tid = 1, name = ''run1'', createdAt = 5, startedAt = None,
       finishedAt = Some 9, parameters = ''{}''\<rparr>]"
    by (simp add: one_run_def)
  moreover from b finish_sets_finishedAt [of one_run "''ghost''" 9]
  have "fastify_reply (fst (finish_handler 9 ''ghost'' one_run)) = Reply 500 [] (ServerError RecordNotFound)
   \<and> snd (finish_handler 9 ''ghost'' one_run) = one_run"
    by blast
  ultimately show ?thesis by blast
qed

theorem finish_unknown_name_counterexample:
  "test_findUnique one_run ''ghost'' = None
   \<and> code (fastify_reply (fst (finish_handler 9 ''ghost'' one_run))) = 500"
  by (simp add: test_findUnique_def one_run_def finish_handler_eq fastify_reply_def status_of_def)

section \<open>Uploads that are turned away\<close>










section \<open>Rows are only added\<close>

lemma upload_tests: "tests (db (fst (snd (upload_handler cfg u n rb w)))) = tests (db w)"
  by (simp add: upload_handler_def req_file_def file_create_def Let_def
        split: option.splits sum.splits upload_body.splits)

lemma upload_files:
  "\<exists>added. files (db (fst (snd (upload_handler cfg u n rb w)))) = files (db w) @ added"
  by (simp add: upload_handler_def req_file_def file_create_def Let_def
        split: option.splits sum.splits upload_body.splits)

lemma identity_kept:
  assumes "\<And>x. row_identity (f x) = row_identity x"
  shows "map row_identity (map (\<lambda>x. if P x then f x else x) xs) = map row_identity xs"
  using assms by (induction xs) simp_all

lemma start_identities:
  "map row_identity (tests (snd (start_handler ts n d))) = map row_identity (tests d)"
  by (cases "find (\<lambda>t. name t = n \<and> startedAt t = None) (tests d)")
     (simp_all add: start_handler_eq identity_kept row_identity_def)

lemma finish_identities:
  "map row_identity (tests (snd (finish_handler ts n d))) = map row_identity (tests d)"
  by (cases "find (\<lambda>t. name t = n) (tests d)")
     (simp_all add: finish_handler_eq identity_kept row_identity_def)

lemma finish_files: "files (snd (finish_handler ts n d)) = files d"
  by (cases "find (\<lambda>t. name t = n) (tests d)") (simp_all add: finish_handler_eq)

lemma new_files: "files (snd (new_handler ts n ps d)) = files d"
  by (cases "find (\<lambda>t. name t = n) (tests d)") (simp_all add: new_handler_eq)

lemma new_identities:
  "\<exists>added. map row_identity (tests (snd (new_handler ts n ps d))) = map row_identity (tests d) @ added"
  by (cases "find (\<lambda>t. name t = n) (tests d)") (simp_all add: new_handler_eq)

text \<open>
  C9. Whatever the request and the state, the File rows after the request are the File
  rows before it, unchanged and in place, followed by those added; and the Test rows
  before it are all still there, with their id, name, creation time and parameters.
\<close>

theorem rows_never_deleted:
  fixes cfg :: config and e :: env and rq :: request and w :: world
  defines "w' \<equiv> snd (serve cfg e rq w)"
  shows "(\<exists>added. files (db w') = files (db w) @ added)
       \<and> (\<exists>added. map row_identity (tests (db w')) = map row_identity (tests (db w)) @ added)"
proof (cases rq)
  case (PostTestNew n ps)
  then have "w' = w\<lparr>db := snd (new_handler (clock e) n ps (db w))\<rparr>"
    by (simp add: w'_def serve_def split: prod.splits)
  then show ?thesis using new_identities [of "clock e" n ps "db w"] by (simp add: new_files)
next
  case (PostTestStart n)
  then have "w' = w\<lparr>db := snd (start_handler (clock e) n (db w))\<rparr>"
    by (simp add: w'_def serve_def split: prod.splits)
  then show ?thesis by (simp add: start_files start_identities)
next
  case (PostTestFinish n)
  then have "w' = w\<lparr>db := snd (finish_handler (clock e) n (db w))\<rparr>"
    by (simp add: w'_def serve_def split: prod.splits)
  then show ?thesis by (simp add: finish_files finish_identities)
next
  case (PostUpload n data)
  then have "w' = fst (snd (upload_handler cfg (fresh_uid e) n (Multipart data) w))"
    by (simp add: w'_def serve_def split: prod.splits)
  then show ?thesis
    using upload_files [of cfg "fresh_uid e" n "Multipart data" w] by (simp add: upload_tests)
next
  case (PostUploadNotMultipart n)
  then have "w' = fst (snd (upload_handler cfg (fresh_uid e) n NotMultipart w))"
    by (simp add: w'_def serve_def split: prod.splits)
  then show ?thesis
    using upload_files [of cfg "fresh_uid e" n NotMultipart w] by (simp add: upload_tests)
qed (simp_all add: w'_def serve_def)

theorem rows_never_deleted_witness:
  "(\<exists>added. files (db (snd (serve cfg0 env0 (PostTestFinish ''run1'') stored))) = [out_log] @ added)
   \<and> (\<exists>added. map row_identity (tests (db (snd (serve cfg0 env0 (PostTestFinish ''run1'') stored)))) =
          [(1, ''run1'', 5, ''{}'')] @ added)"
  using rows_never_deleted [of cfg0 env0 "PostTestFinish ''run1''" stored]
  by (simp add: stored_def stored_db_def one_run_def row_identity_def)

section \<open>Retrieving an artifact\<close>

lemma resolve_from_locate:
  "resolve_from s a cur segs = Some k \<Longrightarrow> k = (a, foldl (norm_step (\<not> a)) cur segs)"
  by (induction segs arbitrary: cur) (auto split: option.splits node.splits)

lemma stat_out_log_stored: "stat stored_disk ''/srv/uploads/run1/out.log'' = Some (Regular [104, 105])"
  by (simp add: stat_def isAbsolute_def node_at_def norm_step_def stored_disk_def)

lemma stat_out_log_removed: "stat Map.empty ''/srv/uploads/run1/out.log'' = None"
  by (simp add: stat_def isAbsolute_def node_at_def norm_step_def)

lemma where_of_1: "where_of ''1'' = IdNumber 1"
  by (simp add: where_of_def is_digits_def Number_def decimal_def to_double_def bit_length.simps)

lemma where_of_uid: "where_of ''c0ffee'' = IdString ''c0ffee''"
  by (simp add: where_of_def is_digits_def)

lemma exists_stored: "existsSync (disk stored) (path out_log)"
  by (simp add: existsSync_def stored_def out_log_def stat_out_log_stored)

lemma exists_removed: "\<not> existsSync (disk removed) (path out_log)"
  by (simp add: existsSync_def removed_def out_log_def stat_out_log_removed)

lemma valid_disposition:
  "valid_header_value (''attachment; filename='' @ quoted x) = valid_header_value x"
  "valid_header_value (''inline; filename='' @ quoted x) = valid_header_value x"
  "valid_header_value ''text/html; charset=utf-8''"
  by (simp_all add: valid_header_value_def valid_header_char_def quoted_def)

text \<open>
  C7, as amended. When the lookup yields a File row whose path is not on the artifact
  store, download and view both answer 404. When the path leads to a regular file and the
  name put into the header (the base name of the original name, or of the path) has only
  characters that a header value may hold, download answers with the bytes of the file and
  an \<open>attachment\<close> disposition, view with the bytes and an \<open>inline\<close> disposition. When
  the path is there but the name has a character that no header value may hold, a control
  character or DEL, setting the header throws and the answer is status 500; and so it is
  when the path leads to a directory.
\<close>

theorem retrieval_checks_disk:
  assumes "file_findUnique (db w) (where_of i) = Inr (Some f)"
  shows "(\<not> existsSync (disk w) (path f) \<longrightarrow>
            download_handler i w = Inr (Reply 404 [] (ErrorMsg ''File is missing on disk''))
            \<and> view_handler i w = Inr (Reply 404 [] (ErrorMsg ''File is missing on disk'')))
       \<and> (stat (disk w) (path f) = Some (Regular bs) \<and> valid_header_value (display_name f) \<longrightarrow>
            download_handler i w =
              Inr (Reply 200
                     [(''Content-Disposition'', ''attachment; filename='' @ quoted (display_name f))]
                     (FileStream bs))
            \<and> view_handler i w =
              Inr (Reply 200
                     [(''Content-Type'', ''text/html; charset=utf-8''),
                      (''Content-Disposition'', ''inline; filename='' @ quoted (display_name f))]
                     (FileStream bs)))
       \<and> (existsSync (disk w) (path f) \<and> \<not> valid_header_value (display_name f) \<longrightarrow>
            download_handler i w = Inl (JsError ''ERR_INVALID_CHAR'')
            \<and> view_handler i w = Inl (JsError ''ERR_INVALID_CHAR'')
            \<and> fastify_reply (download_handler i w) = Reply 500 [] (ServerError (JsError ''ERR_INVALID_CHAR''))
            \<and> fastify_reply (view_handler i w) = Reply 500 [] (ServerError (JsError ''ERR_INVALID_CHAR'')))
       \<and> (stat (disk w) (path f) = Some Dir \<and> valid_header_value (display_name f) \<longrightarrow>
            download_handler i w = Inl (IoError ''EISDIR'')
            \<and> view_handler i w = Inl (IoError ''EISDIR'')
            \<and> fastify_reply (download_handler i w) = Reply 500 [] (ServerError (IoError ''EISDIR''))
            \<and> fastify_reply (view_handler i w) = Reply 500 [] (ServerError (IoError ''EISDIR'')))"
proof (intro conjI impI)
  assume "\<not> existsSync (disk w) (path f)"
  then show "download_handler i w = Inr (Reply 404 [] (ErrorMsg ''File is missing on disk''))"
    and "view_handler i w = Inr (Reply 404 [] (ErrorMsg ''File is missing on disk''))"
    using assms by (simp_all add: download_handler_def view_handler_def)
next
  assume a: "stat (disk w) (path f) = Some (Regular bs) \<and> valid_header_value (display_name f)"
  then have e: "existsSync (disk w) (path f)" by (simp add: existsSync_def)
  from a e show "download_handler i w =
              Inr (Reply 200
                     [(''Content-Disposition'', ''attachment; filename='' @ quoted (display_name f))]
                     (FileStream bs))"
    using assms valid_disposition(1) [of "display_name f"]
    by (simp add: download_handler_def send_stream_def)
  from a e show "view_handler i w =
              Inr (Reply 200
                     [(''Content-Type'', ''text/html; charset=utf-8''),
                      (''Content-Disposition'', ''inline; filename='' @ quoted (display_name f))]
                     (FileStream bs))"
    using assms valid_disposition(2) [of "display_name f"] valid_disposition(3)
    by (simp add: view_handler_def send_stream_def)
next
  assume a: "existsSync (disk w) (path f) \<and> \<not> valid_header_value (display_name f)"
  then show d: "download_handler i w = Inl (JsError ''ERR_INVALID_CHAR'')"
    using assms valid_disposition(1) [of "display_name f"]
    by (simp add: download_handler_def send_stream_def)
  from a show v: "view_handler i w = Inl (JsError ''ERR_INVALID_CHAR'')"
    using assms valid_disposition(2) [of "display_name f"]
    by (simp add: view_handler_def send_stream_def)
  show "fastify_reply (download_handler i w) = Reply 500 [] (ServerError (JsError ''ERR_INVALID_CHAR''))"
    by (simp add: d fastify_reply_def status_of_def)
  show "fastify_reply (view_handler i w) = Reply 500 [] (ServerError (JsError ''ERR_INVALID_CHAR''))"
    by (simp add: v fastify_reply_def status_of_def)
next
  assume a: "stat (disk w) (path f) = Some Dir \<and> valid_header_value (display_name f)"
  then have e: "existsSync (disk w) (path f)" by (simp add: existsSync_def)
  from a e show d: "download_handler i w = Inl (IoError ''EISDIR'')"
    using assms valid_disposition(1) [of "display_name f"]
    by (simp add: download_handler_def send_stream_def)
  from a e show v: "view_handler i w = Inl (IoError ''EISDIR'')"
    using assms valid_disposition(2) [of "display_name f"] valid_disposition(3)
    by (simp add: view_handler_def send_stream_def)
  show "fastify_reply (download_handler i w) = Reply 500 [] (ServerError (IoError ''EISDIR''))"
    by (simp add: d fastify_reply_def status_of_def)
  show "fastify_reply (view_handler i w) = Reply 500 [] (ServerError (IoError ''EISDIR''))"
    by (simp add: v fastify_reply_def status_of_def)
qed

lemma one_run_eq: "one_run = \<lparr>tests = [run1], files = [], test_seq = 1, file_seq = 0\<rparr>"
  by (simp add: one_run_def run1_def)

lemma del_test_dir: "test_dir cfg0 run1 = ''/srv/uploads/run1''"
  by (simp add: test_dir_def cfg0_def run1_def path_join_def normalize_def
        normalizeString_def resolve_segments_def norm_step_def isAbsolute_def
        trailingSeparator_def)

lemma del_file_path: "file_path cfg0 run1 del_log = ''/srv/uploads/run1/'' @ del_name"
  by (simp add: file_path_def del_test_dir del_log_def del_name_def filename_or_upload_def
        basename_def path_join_def normalize_def normalizeString_def resolve_segments_def
        norm_step_def isAbsolute_def trailingSeparator_def)

lemma del_ensure_dir:
  "ensure_dir started_disk ''/srv/uploads/run1'' =
     Inr (started_disk((True, [''srv'', ''uploads'', ''run1'']) \<mapsto> Dir))"
  by (simp add: ensure_dir_def existsSync_def stat_def mkdirSync_def isAbsolute_def node_at_def
        norm_step_def started_disk_def)

lemma del_write:
  "write_file (started_disk((True, [''srv'', ''uploads'', ''run1'']) \<mapsto> Dir))
     (''/srv/uploads/run1/'' @ del_name) [104, 105] = Inr del_disk"
  by (simp add: write_file_def isAbsolute_def node_at_def norm_step_def started_disk_def
        del_disk_def del_name_def)

lemma serve_upload:
  "serve cfg e (PostUpload n data) w =
     (fastify_reply (fst (upload_handler cfg (fresh_uid e) n (Multipart data) w)),
      fst (snd (upload_handler cfg (fresh_uid e) n (Multipart data) w)))"
  by (simp add: serve_def split: prod.splits)

lemma del_world_eq:
  "del_world = \<lparr>db = \<lparr>tests = [run1], files = [del_row], test_seq = 1, file_seq = 1\<rparr>,
                 disk = del_disk\<rparr>"
proof -
  have f: "test_findUnique \<lparr>tests = [run1], files = [], test_seq = 1, file_seq = 0\<rparr> ''run1''
             = Some run1"
    by (simp add: test_findUnique_def run1_def)
  have c: "content del_log = [104, 105]" "filename del_log = Some del_name" "tid run1 = 1"
    by (simp_all add: del_log_def run1_def)
  have d: "disk del_start = started_disk"
    "db del_start = \<lparr>tests = [run1], files = [], test_seq = 1, file_seq = 0\<rparr>"
    by (simp_all add: del_start_def one_run_eq)
  have fc: "file_create ''u1'' del_name (''/srv/uploads/run1/'' @ del_name) 1
              \<lparr>tests = [run1], files = [], test_seq = 1, file_seq = 0\<rparr> =
            Inr (del_row, \<lparr>tests = [run1], files = [del_row], test_seq = 1, file_seq = 1\<rparr>)"
    by (simp add: file_create_def next_id_def Let_def del_row_def)
  have r: "req_file (Multipart (Some del_log)) = Inr (Some del_log)"
    by (simp add: req_file_def)
  have u: "fst (snd (upload_handler cfg0 ''u1'' ''run1'' (Multipart (Some del_log)) del_start)) =
      \<lparr>db = \<lparr>tests = [run1], files = [del_row], test_seq = 1, file_seq = 1\<rparr>, disk = del_disk\<rparr>"
    unfolding upload_handler_def
    by (simp only: r d f del_test_dir del_file_path c del_ensure_dir del_write fc
          option.case sum.case prod.case fst_conv snd_conv)
  show ?thesis
    by (simp add: del_world_def serve_upload env0_def u)
qed


lemma find_del: "file_findUnique (db del_world) (where_of ''1'') = Inr (Some del_row)"
  by (simp add: where_of_1 file_findUnique_def del_world_eq del_row_def)

lemma stat_del:
  "stat (disk del_world) (path del_row) = Some (Regular [104, 105])"
  by (simp add: del_world_eq del_row_def stat_def isAbsolute_def node_at_def norm_step_def
        del_disk_def del_name_def started_disk_def)

lemma del_name_invalid: "\<not> valid_header_value (display_name del_row)"
  by (simp add: display_name_def del_row_def del_name_def basename_def valid_header_value_def
        valid_header_char_def)

theorem retrieval_invalid_name_counterexample:
  "existsSync (disk del_world) (path (hd (files (db del_world))))
   \<and> serve cfg0 env0 (GetDownload ''1'') del_world =
       (Reply 500 [] (ServerError (JsError ''ERR_INVALID_CHAR'')), del_world)
   \<and> serve cfg0 env0 (GetView ''1'') del_world =
       (Reply 500 [] (ServerError (JsError ''ERR_INVALID_CHAR'')), del_world)"
proof -
  have h: "hd (files (db del_world)) = del_row" by (simp add: del_world_eq)
  have e: "existsSync (disk del_world) (path del_row)"
    by (simp add: existsSync_def stat_del)
  have d: "download_handler ''1'' del_world = Inl (JsError ''ERR_INVALID_CHAR'')"
    using find_del e del_name_invalid valid_disposition(1) [of "display_name del_row"]
    by (simp add: download_handler_def send_stream_def)
  have v: "view_handler ''1'' del_world = Inl (JsError ''ERR_INVALID_CHAR'')"
    using find_del e del_name_invalid valid_disposition(2) [of "display_name del_row"]
    by (simp add: view_handler_def send_stream_def)
  show ?thesis
    by (simp add: h e serve_def d v fastify_reply_def status_of_def)
qed

lemma find_stored: "file_findUnique (db stored) (where_of ''1'') = Inr (Some out_log)"
  by (simp add: where_of_1 file_findUnique_def stored_def stored_db_def out_log_def)

lemma find_removed: "file_findUnique (db removed) (where_of ''1'') = Inr (Some out_log)"
  by (simp add: where_of_1 file_findUnique_def removed_def stored_db_def out_log_def)

lemma find_dir: "file_findUnique (db dir_world) (where_of ''1'') = Inr (Some dir_row)"
  by (simp add: where_of_1 file_findUnique_def dir_world_def dir_row_def)

lemma stat_dir: "stat (disk dir_world) (path dir_row) = Some Dir"
  by (simp add: dir_world_def dir_row_def stat_def isAbsolute_def node_at_def norm_step_def
        stored_disk_def)

lemma names_valid: "valid_header_value (display_name out_log)" "valid_header_value (display_name dir_row)"
  by (simp_all add: display_name_def out_log_def dir_row_def basename_def valid_header_value_def
        valid_header_char_def)

theorem retrieval_checks_disk_witness:
  "download_handler ''1'' removed = Inr (Reply 404 [] (ErrorMsg ''File is missing on disk''))
   \<and> view_handler ''1'' removed = Inr (Reply 404 [] (ErrorMsg ''File is missing on disk''))
   \<and> download_handler ''1'' stored =
        Inr (Reply 200 [(''Content-Disposition'', ''attachment; filename='' @ quoted ''out.log'')]
               (FileStream [104, 105]))
   \<and> view_handler ''1'' stored =
        Inr (Reply 200 [(''Content-Type'', ''text/html; charset=utf-8''),
                        (''Content-Disposition'', ''inline; filename='' @ quoted ''out.log'')]
               (FileStream [104, 105]))
   \<and> download_handler ''1'' del_world = Inl (JsError ''ERR_INVALID_CHAR'')
   \<and> view_handler ''1'' del_world = Inl (JsError ''ERR_INVALID_CHAR'')
   \<and> download_handler ''1'' dir_world = Inl (IoError ''EISDIR'')
   \<and> view_handler ''1'' dir_world = Inl (IoError ''EISDIR'')"
proof -
  have n: "display_name out_log = ''out.log''"
    by (simp add: display_name_def out_log_def basename_def)
  have s: "stat (disk stored) (path out_log) = Some (Regular [104, 105])"
    by (simp add: stored_def out_log_def stat_out_log_stored)
  have e: "existsSync (disk del_world) (path del_row)"
    by (simp add: existsSync_def stat_del)
  from retrieval_checks_disk [OF find_removed] exists_removed
  have "download_handler ''1'' removed = Inr (Reply 404 [] (ErrorMsg ''File is missing on disk''))
   \<and> view_handler ''1'' removed = Inr (Reply 404 [] (ErrorMsg ''File is missing on disk''))"
    by blast
  moreover from retrieval_checks_disk [OF find_stored, of "[104, 105]"] s names_valid(1)
  have "download_handler ''1'' stored =
              Inr (Reply 200
                     [(''Content-Disposition'', ''attachment; filename='' @ quoted (display_name out_log))]
                     (FileStream [104, 105]))
            \<and> view_handler ''1'' stored =
              Inr (Reply 200
                     [(''Content-Type'', ''text/html; charset=utf-8''),
                      (''Content-Disposition'', ''inline; filename='' @ quoted (display_name out_log))]
                     (FileStream [104, 105]))"
    by blast
  moreover from retrieval_checks_disk [OF find_del] e del_name_invalid
  have "download_handler ''1'' del_world = Inl (JsError ''ERR_INVALID_CHAR'')
   \<and> view_handler ''1'' del_world = Inl (JsError ''ERR_INVALID_CHAR'')"
    by blast
  moreover from retrieval_checks_disk [OF find_dir] stat_dir names_valid(2)
  have "download_handler ''1'' dir_world = Inl (IoError ''EISDIR'')
   \<and> view_handler ''1'' dir_world = Inl (IoError ''EISDIR'')"
    by blast
  ultimately show ?thesis unfolding n by blast
qed

text \<open>
  C6. A File row with uid \<open>c0ffee\<close> is on record and its file is on disk, yet a request
  by that uid is not resolved: the handlers put the string into a condition on the
  integer column \<open>id\<close>, the query is rejected, and the answer is status 500.
\<close>

theorem string_id_not_resolved:
  "find (\<lambda>f. uid f = ''c0ffee'') (files (db stored)) = Some out_log
   \<and> existsSync (disk stored) (path out_log)
   \<and> download_handler ''c0ffee'' stored = Inl ValidationError
   \<and> view_handler ''c0ffee'' stored = Inl ValidationError
   \<and> fastify_reply (download_handler ''c0ffee'' stored) = Reply 500 [] (ServerError ValidationError)"
  using exists_stored
  by (simp add: download_handler_def view_handler_def where_of_uid file_findUnique_def
        fastify_reply_def status_of_def stored_def stored_db_def out_log_def)

section \<open>The bearer gate\<close>

lemma byte_of_nat_inj:
  "m < 256 \<Longrightarrow> n < 256 \<Longrightarrow> (of_nat m :: 8 word) = of_nat n \<Longrightarrow> m = n"
  by (simp add: word_of_nat_eq_iff take_bit_nat_eq_self)

lemma xor_eq_0_iff_byte: "(xor x y = 0) = (x = y)" for x y :: "8 word"
  by (metis bit.xor_self xor.assoc xor.right_neutral)

lemma fold_differences:
  "(fold (\<lambda>(x, y) acc. or acc (xor x y)) ps acc = (0::8 word))
     = (acc = 0 \<and> (\<forall>(x, y)\<in>set ps. x = y))"
  by (induction ps arbitrary: acc) (auto simp: or_eq_0_iff xor_eq_0_iff_byte)

lemma timingSafeEqual_same_length:
  "length a = length b \<Longrightarrow> timingSafeEqual a b = Inr (a = b)"
  by (simp add: timingSafeEqual_def fold_differences list_eq_iff_zip_eq)

lemma utf8_char_one:
  "(of_char c :: nat) < 128 \<Longrightarrow> utf8_char c = [of_nat (of_char c)]"
  by (simp add: utf8_char_def Let_def)

lemma utf8_char_two:
  "\<not> (of_char c :: nat) < 128 \<Longrightarrow>
   utf8_char c = [of_nat (192 + of_char c div 64), of_nat (128 + of_char c mod 64)]"
  by (simp add: utf8_char_def Let_def del: of_nat_add)

lemma utf8_char_prefix_free:
  assumes "utf8_char c @ xs = utf8_char c' @ ys"
  shows "c = c' \<and> xs = ys"
proof -
  define m where "m = (of_char c :: nat)"
  define n where "n = (of_char c' :: nat)"
  have m: "m < 256" and n: "n < 256" by (simp_all add: m_def n_def nat_of_char_less_256)
  have b1: "192 + m div 64 < 256" "128 + m mod 64 < 256" "192 + n div 64 < 256" "128 + n mod 64 < 256"
    using m n by simp_all
  have one: "utf8_char c = [of_nat m]" if "m < 128"
    using that unfolding m_def by (rule utf8_char_one)
  have one': "utf8_char c' = [of_nat n]" if "n < 128"
    using that unfolding n_def by (rule utf8_char_one)
  have two: "utf8_char c = [of_nat (192 + m div 64), of_nat (128 + m mod 64)]" if "\<not> m < 128"
    using that unfolding m_def by (rule utf8_char_two)
  have two': "utf8_char c' = [of_nat (192 + n div 64), of_nat (128 + n mod 64)]" if "\<not> n < 128"
    using that unfolding n_def by (rule utf8_char_two)
  have "m = n \<and> xs = ys"
  proof (cases "m < 128"; cases "n < 128")
    assume a: "m < 128" "n < 128"
    from assms [unfolded one [OF a(1)] one' [OF a(2)]]
    have "(of_nat m :: 8 word) = of_nat n" "xs = ys" by simp_all
    with a show ?thesis using byte_of_nat_inj [of m n] by simp
  next
    assume a: "m < 128" "\<not> n < 128"
    from assms [unfolded one [OF a(1)] two' [OF a(2)]]
    have "(of_nat m :: 8 word) = of_nat (192 + n div 64)"
      by (simp del: of_nat_add of_nat_numeral)
    then have "m = 192 + n div 64" using byte_of_nat_inj [of m "192 + n div 64"] m b1 by blast
    with a show ?thesis by simp
  next
    assume a: "\<not> m < 128" "n < 128"
    from assms [unfolded two [OF a(1)] one' [OF a(2)]]
    have "(of_nat (192 + m div 64) :: 8 word) = of_nat n"
      by (simp del: of_nat_add of_nat_numeral)
    then have "192 + m div 64 = n" using byte_of_nat_inj [of "192 + m div 64" n] n b1 by blast
    with a show ?thesis by simp
  next
    assume a: "\<not> m < 128" "\<not> n < 128"
    from assms [unfolded two [OF a(1)] two' [OF a(2)]]
    have e: "(of_nat (192 + m div 64) :: 8 word) = of_nat (192 + n div 64)"
      "(of_nat (128 + m mod 64) :: 8 word) = of_nat (128 + n mod 64)" "xs = ys"
      by (simp_all del: of_nat_add of_nat_numeral)
    have "192 + m div 64 = 192 + n div 64"
      using byte_of_nat_inj [OF b1(1) b1(3) e(1)] .
    moreover have "128 + m mod 64 = 128 + n mod 64"
      using byte_of_nat_inj [OF b1(2) b1(4) e(2)] .
    ultimately have "m div 64 = n div 64" "m mod 64 = n mod 64" by simp_all
    then have "m = n" by (metis div_mult_mod_eq)
    with e show ?thesis by simp
  qed
  then show ?thesis by (simp add: m_def n_def)
qed

lemma utf8_char_nonempty: "utf8_char c \<noteq> []"
  by (simp add: utf8_char_def Let_def)

lemma Buffer_from_inj: "Buffer_from s = Buffer_from t \<Longrightarrow> s = t"
proof (induction s arbitrary: t)
  case Nil
  then show ?case
    by (cases t) (simp_all add: Buffer_from_def utf8_char_nonempty)
next
  case (Cons c s)
  show ?case
  proof (cases t)
    case Nil
    with Cons.prems show ?thesis by (simp add: Buffer_from_def utf8_char_nonempty)
  next
    case (Cons c' t')
    with Cons.prems have "utf8_char c @ Buffer_from s = utf8_char c' @ Buffer_from t'"
      by (simp add: Buffer_from_def)
    then have "c = c'" "Buffer_from s = Buffer_from t'"
      using utf8_char_prefix_free by blast+
    with Cons.IH Cons show ?thesis by simp
  qed
qed

lemma hook_with_bearer:
  assumes "s \<noteq> []"
  shows "bearerAuthHook (Some s) (Some (''Bearer '' @ token)) =
           (if token = s then Inr None else Inr (Some (unauthorized ''Invalid token'')))"
proof (cases "length (Buffer_from token) = length (Buffer_from s)")
  case True
  have "(Buffer_from token = Buffer_from s) = (token = s)"
    using Buffer_from_inj by blast
  with True assms show ?thesis
    by (simp add: bearerAuthHook_def startsWith_def timingSafeEqual_same_length)
next
  case False
  then have "token \<noteq> s" by blast
  with False assms show ?thesis
    by (simp add: bearerAuthHook_def startsWith_def)
qed

text \<open>
  C2. The hook rejects with 401 when no secret is configured, when the header is missing
  or does not start with \<open>Bearer \<close>, and when the token after the prefix is not the
  secret, whether it differs in length or in any character, the last one included. With
  exactly the secret after the prefix it returns without replying, and the handler runs.
\<close>

theorem bearer_gate:
  "((secret = None \<or> secret = Some []) \<longrightarrow>
      bearerAuthHook secret authorization =
        Inr (Some (Reply 401 [] (ErrorMsg ''Authentication is not configured''))))
   \<and> (secret = Some s \<and> s \<noteq> [] \<and>
        (authorization = None \<or> (\<exists>a. authorization = Some a \<and> \<not> startsWith a ''Bearer '')) \<longrightarrow>
      bearerAuthHook secret authorization =
        Inr (Some (Reply 401 [] (ErrorMsg ''Missing or invalid authorization header''))))
   \<and> (secret = Some s \<and> s \<noteq> [] \<and> authorization = Some (''Bearer '' @ token) \<and> token \<noteq> s \<longrightarrow>
      bearerAuthHook secret authorization = Inr (Some (Reply 401 [] (ErrorMsg ''Invalid token''))))
   \<and> (secret = Some s \<and> s \<noteq> [] \<and> authorization = Some (''Bearer '' @ s) \<longrightarrow>
      bearerAuthHook secret authorization = Inr None)
   \<and> (bearerAuthHook (bearerToken cfg) authorization = Inr None \<longrightarrow>
      guarded cfg authorization r = r)
   \<and> (bearerAuthHook (bearerToken cfg) authorization = Inr (Some denied) \<longrightarrow>
      guarded cfg authorization r = denied)"
proof (intro conjI impI)
  assume "secret = None \<or> secret = Some []"
  then show "bearerAuthHook secret authorization =
        Inr (Some (Reply 401 [] (ErrorMsg ''Authentication is not configured'')))"
    by (auto simp: bearerAuthHook_def unauthorized_def)
next
  assume a: "secret = Some s \<and> s \<noteq> [] \<and>
        (authorization = None \<or> (\<exists>a. authorization = Some a \<and> \<not> startsWith a ''Bearer ''))"
  then show "bearerAuthHook secret authorization =
        Inr (Some (Reply 401 [] (ErrorMsg ''Missing or invalid authorization header'')))"
    by (auto simp: bearerAuthHook_def unauthorized_def)
next
  assume "secret = Some s \<and> s \<noteq> [] \<and> authorization = Some (''Bearer '' @ token) \<and> token \<noteq> s"
  then show "bearerAuthHook secret authorization = Inr (Some (Reply 401 [] (ErrorMsg ''Invalid token'')))"
    using hook_with_bearer [of s token] by (simp add: unauthorized_def)
next
  assume "secret = Some s \<and> s \<noteq> [] \<and> authorization = Some (''Bearer '' @ s)"
  then show "bearerAuthHook secret authorization = Inr None"
    using hook_with_bearer [of s s] by simp
next
  assume "bearerAuthHook (bearerToken cfg) authorization = Inr None"
  then show "guarded cfg authorization r = r" by (simp add: guarded_def)
next
  assume "bearerAuthHook (bearerToken cfg) authorization = Inr (Some denied)"
  then show "guarded cfg authorization r = denied" by (simp add: guarded_def)
qed

theorem bearer_gate_witness:
  "bearerAuthHook None (Some ''Bearer s3cret'') =
     Inr (Some (Reply 401 [] (ErrorMsg ''Authentication is not configured'')))
   \<and> bearerAuthHook (Some ''s3cret'') None =
     Inr (Some (Reply 401 [] (ErrorMsg ''Missing or invalid authorization header'')))
   \<and> bearerAuthHook (Some ''s3cret'') (Some ''Bearer s3creu'') =
     Inr (Some (Reply 401 [] (ErrorMsg ''Invalid token'')))
   \<and> bearerAuthHook (Some ''s3cret'') (Some ''Bearer s3cret'') = Inr None
   \<and> guarded cfg0 (Some ''Bearer s3cret'') (list_handler empty_db) = list_handler empty_db
   \<and> guarded cfg0 (Some ''Bearer s3creu'') (list_handler empty_db) =
       Reply 401 [] (ErrorMsg ''Invalid token'')"
proof -
  have "bearerAuthHook None (Some ''Bearer s3cret'') =
     Inr (Some (Reply 401 [] (ErrorMsg ''Authentication is not configured'')))"
    using bearer_gate [of None "Some ''Bearer s3cret''"] by simp
  moreover have "bearerAuthHook (Some ''s3cret'') None =
     Inr (Some (Reply 401 [] (ErrorMsg ''Missing or invalid authorization header'')))"
    using bearer_gate [of "Some ''s3cret''" None "''s3cret''"] by simp
  moreover have bad: "bearerAuthHook (Some ''s3cret'') (Some ''Bearer s3creu'') =
     Inr (Some (Reply 401 [] (ErrorMsg ''Invalid token'')))"
    using bearer_gate [of "Some ''s3cret''" "Some ''Bearer s3creu''" "''s3cret''" "''s3creu''"] by simp
  moreover have ok: "bearerAuthHook (Some ''s3cret'') (Some ''Bearer s3cret'') = Inr None"
    using bearer_gate [of "Some ''s3cret''" "Some ''Bearer s3cret''" "''s3cret''"] by simp
  moreover have "guarded cfg0 (Some ''Bearer s3cret'') (list_handler empty_db) = list_handler empty_db"
  proof -
    have "bearerAuthHook (bearerToken cfg0) (Some ''Bearer s3cret'') = Inr None"
      using ok by (simp add: cfg0_def)
    with bearer_gate [where cfg = cfg0 and authorization = "Some ''Bearer s3cret''"
        and r = "list_handler empty_db"]
    show ?thesis by blast
  qed
  moreover have "guarded cfg0 (Some ''Bearer s3creu'') (list_handler empty_db) =
       Reply 401 [] (ErrorMsg ''Invalid token'')"
  proof -
    have "bearerAuthHook (bearerToken cfg0) (Some ''Bearer s3creu'') =
        Inr (Some (Reply 401 [] (ErrorMsg ''Invalid token'')))"
      using bad by (simp add: cfg0_def)
    with bearer_gate [where cfg = cfg0 and authorization = "Some ''Bearer s3creu''"
        and r = "list_handler empty_db" and denied = "Reply 401 [] (ErrorMsg ''Invalid token'')"]
    show ?thesis by blast
  qed
  ultimately show ?thesis by blast
qed

section \<open>Where an upload is written\<close>

lemma basename_no_separator: "CHR ''/'' \<notin> set (basename p)"
proof
  assume "CHR ''/'' \<in> set (basename p)"
  then have "CHR ''/'' \<in> set (takeWhile (\<lambda>c. c \<noteq> CHR ''/'') (dropWhile (\<lambda>c. c = CHR ''/'') (rev p)))"
    by (simp add: basename_def)
  then show False by (auto dest: set_takeWhileD)
qed

lemma split_sep_nonempty: "split_sep s \<noteq> []"
  by (induction s) (auto split: list.splits)

lemma split_sep_plain: "CHR ''/'' \<notin> set s \<Longrightarrow> split_sep s = [s]"
  by (induction s) auto

lemma split_sep_append: "split_sep (a @ CHR ''/'' # b) = split_sep a @ split_sep b"
proof (induction a)
  case Nil
  show ?case by simp
next
  case (Cons c a)
  show ?case
  proof (cases "c = CHR ''/''")
    case True
    with Cons show ?thesis by simp
  next
    case False
    obtain seg segs where s: "split_sep a = seg # segs"
      using split_sep_nonempty [of a] by (cases "split_sep a") auto
    with False Cons show ?thesis by simp
  qed
qed

lemma split_sep_segments: "seg \<in> set (split_sep s) \<Longrightarrow> CHR ''/'' \<notin> set seg"
proof (induction s arbitrary: seg)
  case Nil
  then show ?case by simp
next
  case (Cons c s)
  obtain x xs where s: "split_sep s = x # xs"
    using split_sep_nonempty [of s] by (cases "split_sep s") auto
  show ?case
  proof (cases "c = CHR ''/''")
    case True
    with Cons show ?thesis by auto
  next
    case False
    with Cons.prems s have "seg = c # x \<or> seg \<in> set xs" by simp
    then show ?thesis
    proof
      assume "seg = c # x"
      moreover have "CHR ''/'' \<notin> set x" using Cons.IH [of x] s by simp
      ultimately show ?thesis using False by auto
    next
      assume "seg \<in> set xs"
      then show ?thesis using Cons.IH [of seg] s by simp
    qed
  qed
qed

lemma split_sep_join_sep:
  "segs \<noteq> [] \<Longrightarrow> \<forall>seg\<in>set segs. CHR ''/'' \<notin> set seg \<Longrightarrow> split_sep (join_sep segs) = segs"
proof (induction segs rule: join_sep.induct)
  case 1
  then show ?case by simp
next
  case (2 x)
  then show ?case by (simp add: split_sep_plain)
next
  case (3 x y ys)
  then have "split_sep (join_sep (y # ys)) = y # ys" by simp
  moreover have "split_sep x = [x]" using 3 by (simp add: split_sep_plain)
  ultimately show ?case by (simp add: split_sep_append)
qed


lemma norm_step_length: "length (norm_step allow st seg) \<le> Suc (length st)"
  by (auto simp: norm_step_def)

lemma resolve_length: "length (foldl (norm_step allow) st segs) \<le> length st + length segs"
proof (induction segs arbitrary: st)
  case Nil
  show ?case by simp
next
  case (Cons seg segs)
  have "length (foldl (norm_step allow) (norm_step allow st seg) segs)
          \<le> length (norm_step allow st seg) + length segs"
    by (rule Cons.IH)
  also have "\<dots> \<le> Suc (length st) + length segs"
    using norm_step_length [of allow st seg] by simp
  finally show ?case by simp
qed

lemma settled_snoc:
  assumes "settled allow (xs @ [y])"
  shows "settled allow xs \<and> norm_step allow xs y = xs @ [y]"
proof -
  define r where "r = foldl (norm_step allow) [] xs"
  have len: "length r \<le> length xs"
    using resolve_length [of allow "[]" xs] by (simp add: r_def)
  from assms have e: "norm_step allow r y = xs @ [y]"
    by (simp add: settled_def r_def)
  have "r = xs"
  proof (cases "y = [] \<or> y = ''.''")
    case True
    with e have "r = xs @ [y]" by (auto simp: norm_step_def)
    with len show ?thesis by simp
  next
    case False
    show ?thesis
    proof (cases "y = ''..''")
      case True
      show ?thesis
      proof (cases "r \<noteq> [] \<and> last r \<noteq> ''..''")
        case True
        with \<open>y = ''..''\<close> e have "butlast r = xs @ [y]" by (simp add: norm_step_def)
        then have "length (butlast r) = Suc (length xs)" by simp
        with len show ?thesis by simp
      next
        case False
        with \<open>y = ''..''\<close> e have "(if allow then r @ [''..''] else r) = xs @ [y]"
          by (auto simp: norm_step_def)
        with len show ?thesis by (cases allow) auto
      qed
    next
      case False
      with \<open>\<not> (y = [] \<or> y = ''.'')\<close> e have "r @ [y] = xs @ [y]"
        by (simp add: norm_step_def)
      then show ?thesis by simp
    qed
  qed
  with e show ?thesis by (simp add: settled_def r_def)
qed

lemma settled_butlast: "settled allow st \<Longrightarrow> settled allow (butlast st)"
proof (cases st rule: rev_cases)
  case Nil
  then show "settled allow st \<Longrightarrow> settled allow (butlast st)" by simp
next
  case (snoc xs y)
  then show "settled allow st \<Longrightarrow> settled allow (butlast st)"
    using settled_snoc [of allow xs y] by simp
qed

lemma settled_step: "settled allow st \<Longrightarrow> settled allow (norm_step allow st seg)"
proof -
  assume s: "settled allow st"
  have push: "settled allow (st @ [x])" if "norm_step allow st x = st @ [x]" for x
    using s that by (simp add: settled_def)
  show ?thesis
  proof (cases "seg = [] \<or> seg = ''.''")
    case True
    with s show ?thesis by (auto simp: norm_step_def)
  next
    case False
    show ?thesis
    proof (cases "seg = ''..''")
      case True
      show ?thesis
      proof (cases "st \<noteq> [] \<and> last st \<noteq> ''..''")
        case True
        with \<open>seg = ''..''\<close> have "norm_step allow st seg = butlast st"
          by (simp add: norm_step_def)
        with s show ?thesis by (simp add: settled_butlast)
      next
        case False
        show ?thesis
        proof (cases allow)
          case True
          with False \<open>seg = ''..''\<close> have "norm_step allow st seg = st @ [seg]"
            by (auto simp: norm_step_def)
          with push [of seg] show ?thesis by simp
        next
          case False
          with \<open>\<not> (st \<noteq> [] \<and> last st \<noteq> ''..'')\<close> \<open>seg = ''..''\<close>
          have "norm_step allow st seg = st" by (auto simp: norm_step_def)
          with s show ?thesis by simp
        qed
      qed
    next
      case False
      with \<open>\<not> (seg = [] \<or> seg = ''.'')\<close> have "norm_step allow st seg = st @ [seg]"
        by (simp add: norm_step_def)
      with push [of seg] show ?thesis by simp
    qed
  qed
qed

lemma settled_foldl: "settled allow st \<Longrightarrow> settled allow (foldl (norm_step allow) st segs)"
  by (induction segs arbitrary: st) (simp_all add: settled_step)

lemma settled_resolve: "settled allow (resolve_segments allow p)"
  unfolding resolve_segments_def by (rule settled_foldl) (simp add: settled_def)

lemma settled_segment: "settled allow st \<Longrightarrow> seg \<in> set st \<Longrightarrow> seg \<noteq> [] \<and> seg \<noteq> ''.''"
proof (induction st rule: rev_induct)
  case Nil
  then show ?case by simp
next
  case (snoc y xs)
  from settled_snoc [OF snoc.prems(1)]
  have s: "settled allow xs" and e: "norm_step allow xs y = xs @ [y]" by simp_all
  have "y \<noteq> [] \<and> y \<noteq> ''.''"
  proof (rule ccontr)
    assume "\<not> (y \<noteq> [] \<and> y \<noteq> ''.'')"
    then have "norm_step allow xs y = xs" by (auto simp: norm_step_def)
    with e show False by simp
  qed
  with snoc.IH [OF s] snoc.prems(2) show ?case by auto
qed

lemma norm_step_subset: "set (norm_step allow st seg) \<subseteq> set st \<union> {seg}"
  by (auto simp: norm_step_def dest: in_set_butlastD)

lemma foldl_no_separator:
  "\<forall>s\<in>set st. CHR ''/'' \<notin> set s \<Longrightarrow> \<forall>s\<in>set segs. CHR ''/'' \<notin> set s \<Longrightarrow>
   \<forall>s\<in>set (foldl (norm_step allow) st segs). CHR ''/'' \<notin> set s"
proof (induction segs arbitrary: st)
  case Nil
  then show ?case by simp
next
  case (Cons seg segs)
  have "\<forall>s\<in>set (norm_step allow st seg). CHR ''/'' \<notin> set s"
    using norm_step_subset [of allow st seg] Cons.prems by auto
  with Cons show ?case by simp
qed

lemma resolve_no_separator: "seg \<in> set (resolve_segments allow p) \<Longrightarrow> CHR ''/'' \<notin> set seg"
  using foldl_no_separator [of "[]" "split_sep p" allow] split_sep_segments
  unfolding resolve_segments_def by auto


lemma join_sep_nonempty:
  "segs \<noteq> [] \<Longrightarrow> hd segs \<noteq> [] \<Longrightarrow> join_sep segs \<noteq> [] \<and> hd (join_sep segs) = hd (hd segs)"
  by (induction segs rule: join_sep.induct) auto

lemma split_sep_leading: "split_sep (CHR ''/'' # x) = [] # split_sep x"
  by simp

lemma split_sep_trailing: "split_sep (x @ ''/'') = split_sep x @ [[]]"
  using split_sep_append [of x "[]"] by simp

lemma norm_step_empty: "norm_step allow st [] = st"
  by (simp add: norm_step_def)

lemma resolve_of_settled:
  assumes "settled allow st" and "st \<noteq> []" and "\<forall>seg\<in>set st. CHR ''/'' \<notin> set seg"
  shows "resolve_segments allow (join_sep st) = st"
    and "resolve_segments allow (join_sep st @ ''/'') = st"
    and "resolve_segments allow (CHR ''/'' # join_sep st) = st"
    and "resolve_segments allow (CHR ''/'' # join_sep st @ ''/'') = st"
proof -
  have sp: "split_sep (join_sep st) = st"
    using assms(2,3) by (rule split_sep_join_sep)
  have f: "foldl (norm_step allow) [] st = st"
    using assms(1) by (simp add: settled_def)
  show "resolve_segments allow (join_sep st) = st"
    by (simp add: resolve_segments_def sp f)
  show "resolve_segments allow (join_sep st @ ''/'') = st"
    by (simp add: resolve_segments_def split_sep_trailing sp f norm_step_empty)
  show "resolve_segments allow (CHR ''/'' # join_sep st) = st"
    by (simp add: resolve_segments_def sp f norm_step_empty)
  show "resolve_segments allow (CHR ''/'' # join_sep st @ ''/'') = st"
    by (simp add: resolve_segments_def split_sep_trailing sp f norm_step_empty)
qed

lemma locate_normalize:
  assumes "p \<noteq> []"
  shows "locate (normalize p) = locate p"
proof -
  define a where "a = isAbsolute p"
  define st where "st = resolve_segments (\<not> a) p"
  have loc: "locate p = (a, st)" by (simp add: locate_def a_def st_def)
  show ?thesis
  proof (cases "st = []")
    case True
    then have q: "normalizeString p (\<not> isAbsolute p) = []"
      by (simp add: normalizeString_def st_def a_def)
    have "normalize p = (if a then ''/'' else if trailingSeparator p then ''./'' else ''.'')"
      using assms q by (simp add: normalize_def a_def)
    moreover have "locate ''/'' = (True, [])" "locate ''./'' = (False, [])" "locate ''.'' = (False, [])"
      by (simp_all add: locate_def isAbsolute_def resolve_segments_def norm_step_def)
    ultimately show ?thesis using True loc by simp
  next
    case False
    have s: "settled (\<not> a) st" unfolding st_def by (rule settled_resolve)
    have ns: "\<forall>seg\<in>set st. CHR ''/'' \<notin> set seg"
      unfolding st_def using resolve_no_separator by blast
    have "hd st \<in> set st" using False by simp
    then have h: "hd st \<noteq> []" "CHR ''/'' \<notin> set (hd st)"
      using settled_segment [OF s] ns by blast+
    from join_sep_nonempty [OF False h(1)]
    have jn: "join_sep st \<noteq> []" and jh: "hd (join_sep st) = hd (hd st)" by simp_all
    have "hd (hd st) \<in> set (hd st)" using h(1) by simp
    with h(2) have "hd (hd st) \<noteq> CHR ''/''" by metis
    with jh jn have rel: "\<not> isAbsolute (join_sep st)" "\<not> isAbsolute (join_sep st @ ''/'')"
      by (cases "join_sep st"; simp add: isAbsolute_def)+
    have q: "normalizeString p (\<not> isAbsolute p) = join_sep st"
      by (simp add: normalizeString_def st_def a_def)
    note r = resolve_of_settled [OF s False ns]
    show ?thesis
    proof (cases a)
      case True
      then have n: "normalize p =
          (if trailingSeparator p then CHR ''/'' # join_sep st @ ''/'' else CHR ''/'' # join_sep st)"
        using assms q jn by (simp add: normalize_def a_def Let_def)
      have "locate (CHR ''/'' # join_sep st @ ''/'') = (True, st)"
        "locate (CHR ''/'' # join_sep st) = (True, st)"
        using r True by (simp_all add: locate_def isAbsolute_def)
      with n loc True show ?thesis by simp
    next
      case False
      then have n: "normalize p =
          (if trailingSeparator p then join_sep st @ ''/'' else join_sep st)"
        using assms q jn by (simp add: normalize_def a_def Let_def)
      have "locate (join_sep st @ ''/'') = (False, st)" "locate (join_sep st) = (False, st)"
        using r False rel by (simp_all add: locate_def)
      with n loc False show ?thesis by simp
    qed
  qed
qed

lemma normalize_nonempty: "normalize p \<noteq> []"
  by (simp add: normalize_def Let_def)

lemma path_join_nonempty: "path_join args \<noteq> []"
  by (simp add: path_join_def Let_def normalize_nonempty)

lemma isAbsolute_append: "dir \<noteq> [] \<Longrightarrow> isAbsolute (dir @ x) = isAbsolute dir"
  by (cases dir) (simp_all add: isAbsolute_def)

lemma locate_join:
  assumes "dir \<noteq> []"
  shows "locate (path_join [dir, x]) =
           (fst (locate dir),
            foldl (norm_step (\<not> fst (locate dir))) (snd (locate dir)) (split_sep x))"
proof (cases "x = []")
  case True
  then have "path_join [dir, x] = normalize dir"
    using assms by (simp add: path_join_def)
  then show ?thesis using True assms by (simp add: locate_normalize norm_step_empty)
next
  case False
  then have "path_join [dir, x] = normalize (dir @ CHR ''/'' # x)"
    using assms by (simp add: path_join_def)
  then have "locate (path_join [dir, x]) = locate (dir @ CHR ''/'' # x)"
    by (simp add: locate_normalize)
  also have "\<dots> = (isAbsolute dir,
      foldl (norm_step (\<not> isAbsolute dir)) [] (split_sep dir @ split_sep x))"
    using assms by (simp add: locate_def isAbsolute_append resolve_segments_def split_sep_append)
  finally have e: "locate (path_join [dir, x]) = (isAbsolute dir,
      foldl (norm_step (\<not> isAbsolute dir)) [] (split_sep dir @ split_sep x))" .
  have d: "fst (locate dir) = isAbsolute dir"
    "snd (locate dir) = foldl (norm_step (\<not> isAbsolute dir)) [] (split_sep dir)"
    by (simp_all add: locate_def resolve_segments_def)
  show ?thesis unfolding e d by simp
qed

lemma norm_step_plain: "plain seg \<Longrightarrow> norm_step allow st seg = st @ [seg]"
  by (simp add: norm_step_def plain_def)

lemma locate_join_plain:
  assumes "dir \<noteq> []" and "plain seg"
  shows "locate (path_join [dir, seg]) = (fst (locate dir), snd (locate dir) @ [seg])"
proof -
  have "split_sep seg = [seg]" using assms(2) by (simp add: split_sep_plain plain_def)
  then show ?thesis using assms by (simp add: locate_join norm_step_plain)
qed


lemma mkdir_from_adds_dirs:
  "mkdir_from a cur segs s = Inr s' \<Longrightarrow> s' k \<noteq> s k \<Longrightarrow> s' k = Some Dir"
proof (induction segs arbitrary: cur s)
  case Nil
  then show ?case by simp
next
  case (Cons seg segs)
  define nxt where "nxt = norm_step (\<not> a) cur seg"
  show ?case
  proof (cases "node_at s (a, nxt)")
    case None
    with Cons.prems(1)
    have m: "mkdir_from a nxt segs (s((a, nxt) \<mapsto> Dir)) = Inr s'" by (simp add: nxt_def)
    show ?thesis
    proof (cases "s' k = (s((a, nxt) \<mapsto> Dir)) k")
      case True
      with Cons.prems(2) show ?thesis by (auto split: if_splits)
    next
      case False
      with Cons.IH [OF m] show ?thesis by blast
    qed
  next
    case (Some nd)
    show ?thesis
    proof (cases nd)
      case Dir
      with Some Cons.prems(1) have "mkdir_from a nxt segs s = Inr s'" by (simp add: nxt_def)
      from Cons.IH [OF this Cons.prems(2)] show ?thesis .
    next
      case (Regular bs)
      with Some Cons.prems(1) show ?thesis by (simp add: nxt_def)
    qed
  qed
qed

lemma ensure_dir_adds_dirs:
  "ensure_dir s dir = Inr s' \<Longrightarrow> s' k \<noteq> s k \<Longrightarrow> s' k = Some Dir"
  by (auto simp: ensure_dir_def mkdirSync_def split: if_splits dest: mkdir_from_adds_dirs)

lemma write_file_result:
  assumes "write_file s p bs = Inr s'"
  shows "s' = s(locate p \<mapsto> Regular bs)"
proof -
  obtain seg dirs where r: "rev (split_sep p) = seg # dirs"
    using split_sep_nonempty [of p] by (cases "rev (split_sep p)") auto
  then have sp: "split_sep p = rev dirs @ [seg]" by (metis rev.simps(2) rev_rev_ident)
  from assms r obtain d where
    d: "resolve_from s (isAbsolute p) [] (rev dirs) = Some d"
    and seg: "\<not> (seg = [] \<or> seg = ''.'' \<or> seg = ''..'')"
    and s': "s' = s((fst d, snd d @ [seg]) \<mapsto> Regular bs)"
    by (auto simp: write_file_def split: option.splits node.splits if_splits)
  from resolve_from_locate [OF d]
  have "d = (isAbsolute p, foldl (norm_step (\<not> isAbsolute p)) [] (rev dirs))" .
  moreover have "locate p =
      (isAbsolute p, norm_step (\<not> isAbsolute p) (foldl (norm_step (\<not> isAbsolute p)) [] (rev dirs)) seg)"
    by (simp add: locate_def resolve_segments_def sp)
  moreover have "norm_step allow st seg = st @ [seg]" for allow st
    using seg by (simp add: norm_step_def)
  ultimately have "locate p = (fst d, snd d @ [seg])" by simp
  with s' show ?thesis by simp
qed

lemma upload_disk:
  assumes "test_findUnique (db w) n = Some t"
    and "disk (fst (snd (upload_handler cfg u n (Multipart (Some dat)) w))) k \<noteq> disk w k"
  shows "disk (fst (snd (upload_handler cfg u n (Multipart (Some dat)) w))) k = Some Dir
       \<or> (k = locate (file_path cfg t dat)
          \<and> disk (fst (snd (upload_handler cfg u n (Multipart (Some dat)) w))) k =
              Some (Regular (content dat)))"
proof (cases "ensure_dir (disk w) (test_dir cfg t)")
  case (Inl e)
  with assms show ?thesis by (simp add: upload_handler_def req_file_def)
next
  case (Inr s1)
  note dirs = ensure_dir_adds_dirs [OF Inr]
  show ?thesis
  proof (cases "write_file s1 (file_path cfg t dat) (content dat)")
    case (Inl e)
    with Inr assms(1) have "disk (fst (snd (upload_handler cfg u n (Multipart (Some dat)) w))) = s1"
      by (simp add: upload_handler_def req_file_def)
    with assms(2) dirs show ?thesis by simp
  next
    case (Inr s2)
    from write_file_result [OF Inr]
    have s2: "s2 = s1(locate (file_path cfg t dat) \<mapsto> Regular (content dat))" .
    have "disk (fst (snd (upload_handler cfg u n (Multipart (Some dat)) w))) = s2"
      using assms(1) \<open>ensure_dir (disk w) (test_dir cfg t) = Inr s1\<close> Inr
      by (simp add: upload_handler_def req_file_def split: option.splits sum.splits)
    with assms(2) dirs s2 show ?thesis by (cases "k = locate (file_path cfg t dat)") auto
  qed
qed

lemma upload_location:
  assumes "upload_path cfg \<noteq> []" and "plain (name t)" and "plain (basename (filename_or_upload dat))"
  shows "locate (file_path cfg t dat) =
           (fst (locate (upload_path cfg)),
            snd (locate (upload_path cfg)) @ [name t, basename (filename_or_upload dat)])"
proof -
  have d: "locate (test_dir cfg t) =
      (fst (locate (upload_path cfg)), snd (locate (upload_path cfg)) @ [name t])"
    unfolding test_dir_def using assms(1,2) by (rule locate_join_plain)
  have "test_dir cfg t \<noteq> []" unfolding test_dir_def by (rule path_join_nonempty)
  from locate_join_plain [OF this assms(3)] show ?thesis
    by (simp add: file_path_def d)
qed

lemma within_child: "within root (fst root, snd root @ below)"
  by (simp add: within_def)

text \<open>
  What the base name achieves. For a test whose name is a plain segment and a file name
  whose base name is a plain segment, the upload goes to \<open>root/name/base name\<close>, and
  the handler changes nothing on the artifact store but that file and the directories
  leading to it.
\<close>

lemma upload_confined_for_plain_names:
  assumes "upload_path cfg \<noteq> []" and "plain (name t)"
    and "plain (basename (filename_or_upload dat))"
    and "test_findUnique (db w) n = Some t"
  shows "locate (file_path cfg t dat) =
           (fst (locate (upload_path cfg)),
            snd (locate (upload_path cfg)) @ [name t, basename (filename_or_upload dat)])
       \<and> within (locate (test_dir cfg t)) (locate (file_path cfg t dat))
       \<and> within (locate (upload_path cfg)) (locate (file_path cfg t dat))
       \<and> (\<forall>k. disk (fst (snd (upload_handler cfg u n (Multipart (Some dat)) w))) k \<noteq> disk w k \<longrightarrow>
             disk (fst (snd (upload_handler cfg u n (Multipart (Some dat)) w))) k = Some Dir
             \<or> k = locate (file_path cfg t dat))"
proof -
  note l = upload_location [OF assms(1-3)]
  have d: "locate (test_dir cfg t) =
      (fst (locate (upload_path cfg)), snd (locate (upload_path cfg)) @ [name t])"
    unfolding test_dir_def using assms(1,2) by (rule locate_join_plain)
  have w1: "within (locate (upload_path cfg)) (locate (file_path cfg t dat))"
    unfolding l by (rule within_child)
  have w2: "within (locate (test_dir cfg t)) (locate (file_path cfg t dat))"
    unfolding l d by (simp add: within_def)
  have "\<forall>k. disk (fst (snd (upload_handler cfg u n (Multipart (Some dat)) w))) k \<noteq> disk w k \<longrightarrow>
             disk (fst (snd (upload_handler cfg u n (Multipart (Some dat)) w))) k = Some Dir
             \<or> k = locate (file_path cfg t dat)"
    using upload_disk [OF assms(4)] by blast
  with l w1 w2 show ?thesis by blast
qed

lemma upload_confined_example:
  "locate (file_path cfg0 (hd (tests one_run)) \<lparr>filename = Some ''../../out.log'', content = [104]\<rparr>) =
     (True, [''srv'', ''uploads'', ''run1'', ''out.log''])"
proof -
  have a: "upload_path cfg0 \<noteq> []" by (simp add: cfg0_def)
  have b: "plain (name (hd (tests one_run)))" by (simp add: one_run_def plain_def)
  have c: "basename (filename_or_upload \<lparr>filename = Some ''../../out.log'', content = [104]\<rparr>) = ''out.log''"
    by (simp add: filename_or_upload_def basename_def)
  have d: "plain (basename (filename_or_upload \<lparr>filename = Some ''../../out.log'', content = [104]\<rparr>))"
    unfolding c by (simp add: plain_def)
  have e: "test_findUnique (db fresh_world) ''run1'' = Some (hd (tests one_run))"
    by (simp add: test_findUnique_def fresh_world_def one_run_def)
  have r: "locate (upload_path cfg0) = (True, [''srv'', ''uploads''])"
    by (simp add: cfg0_def locate_def isAbsolute_def resolve_segments_def norm_step_def)
  from upload_confined_for_plain_names [OF a b d e]
  show ?thesis unfolding c r by (simp add: one_run_def)
qed

lemma escape_named_eq:
  "escape_named = \<lparr>db = \<lparr>tests = [dotdot_run], files = [], test_seq = 1, file_seq = 0\<rparr>,
                    disk = started_disk\<rparr>"
  by (simp add: escape_named_def serve_def new_handler_def test_create_def test_findUnique_def
        escape_start_def empty_db_def env0_def next_id_def dotdot_run_def Let_def)

lemma escape_test_dir: "test_dir cfg0 dotdot_run = ''/srv''"
  by (simp add: test_dir_def cfg0_def dotdot_run_def path_join_def normalize_def
        normalizeString_def resolve_segments_def norm_step_def isAbsolute_def
        trailingSeparator_def)

lemma escape_file_path: "file_path cfg0 dotdot_run x_txt = ''/srv/x.txt''"
  by (simp add: file_path_def escape_test_dir x_txt_def filename_or_upload_def basename_def
        path_join_def normalize_def normalizeString_def resolve_segments_def norm_step_def
        isAbsolute_def trailingSeparator_def)

lemma locate_srv: "locate ''/srv'' = (True, [''srv''])"
  by (simp add: locate_def isAbsolute_def resolve_segments_def norm_step_def)

lemma locate_x_txt: "locate ''/srv/x.txt'' = (True, [''srv'', ''x.txt''])"
  by (simp add: locate_def isAbsolute_def resolve_segments_def norm_step_def)

lemma locate_root: "locate (upload_path cfg0) = (True, [''srv'', ''uploads''])"
  by (simp add: cfg0_def locate_def isAbsolute_def resolve_segments_def norm_step_def)

lemma escape_ensure_dir: "ensure_dir started_disk ''/srv'' = Inr started_disk"
  by (simp add: ensure_dir_def existsSync_def stat_def isAbsolute_def node_at_def norm_step_def
        started_disk_def)

lemma escape_write:
  "write_file started_disk ''/srv/x.txt'' [120] =
     Inr (started_disk((True, [''srv'', ''x.txt'']) \<mapsto> Regular [120]))"
  by (simp add: write_file_def isAbsolute_def node_at_def norm_step_def started_disk_def)

text \<open>
  C3. The file name is reduced to its base name, but the name of the test is joined to
  the root as it is. After \<open>POST /test/new\<close> with the name \<open>..\<close>, an upload for
  that test with the file name \<open>x.txt\<close> succeeds and writes \<open>/srv/x.txt\<close>, a file
  that was not there before and that is not within the artifact root \<open>/srv/uploads\<close>.
\<close>

theorem upload_escapes_root:
  "fst (serve cfg0 env0 (PostUpload ''..'' (Some x_txt)) escape_named) =
     Reply 200 [] (Message ''File uploaded successfully'')
   \<and> disk (snd (serve cfg0 env0 (PostUpload ''..'' (Some x_txt)) escape_named))
        (True, [''srv'', ''x.txt'']) = Some (Regular [120])
   \<and> disk escape_named (True, [''srv'', ''x.txt'']) = None
   \<and> locate (upload_path cfg0) = (True, [''srv'', ''uploads''])
   \<and> \<not> within (locate (upload_path cfg0)) (True, [''srv'', ''x.txt''])
   \<and> map path (files (db (snd (serve cfg0 env0 (PostUpload ''..'' (Some x_txt)) escape_named)))) =
       [''/srv/x.txt'']"
proof -
  have f: "test_findUnique (db escape_named) ''..'' = Some dotdot_run"
    by (simp add: escape_named_eq test_findUnique_def dotdot_run_def)
  have u: "upload_handler cfg0 ''u1'' ''..'' (Multipart (Some x_txt)) escape_named =
      (Inr (Reply 200 [] (Message ''File uploaded successfully'')),
       \<lparr>db = \<lparr>tests = [dotdot_run],
               files = [\<lparr>fid = 1, uid = ''u1'', originalName = ''x.txt'', path = ''/srv/x.txt'',
                         fsize = 0, testId = 1\<rparr>],
               test_seq = 1, file_seq = 1\<rparr>,
         disk = started_disk((True, [''srv'', ''x.txt'']) \<mapsto> Regular [120])\<rparr>,
       DbFindTest ''..'' # dir_effects started_disk ''/srv'' @
         [FsWrite ''/srv/x.txt'', DbCreateFile ''/srv/x.txt''])"
  proof -
    have c: "content x_txt = [120]" "filename x_txt = Some ''x.txt''" "tid dotdot_run = 1"
      by (simp_all add: x_txt_def dotdot_run_def)
    have d: "disk escape_named = started_disk"
      "db escape_named = \<lparr>tests = [dotdot_run], files = [], test_seq = 1, file_seq = 0\<rparr>"
      by (simp_all add: escape_named_eq)
    have fc: "file_create ''u1'' ''x.txt'' ''/srv/x.txt'' 1
                \<lparr>tests = [dotdot_run], files = [], test_seq = 1, file_seq = 0\<rparr> =
              Inr (\<lparr>fid = 1, uid = ''u1'', originalName = ''x.txt'', path = ''/srv/x.txt'',
                     fsize = 0, testId = 1\<rparr>,
                   \<lparr>tests = [dotdot_run],
                    files = [\<lparr>fid = 1, uid = ''u1'', originalName = ''x.txt'',
                              path = ''/srv/x.txt'', fsize = 0, testId = 1\<rparr>],
                    test_seq = 1, file_seq = 1\<rparr>)"
      by (simp add: file_create_def next_id_def Let_def)
    note f' = f [unfolded d]
    have r: "req_file (Multipart (Some x_txt)) = Inr (Some x_txt)"
      by (simp add: req_file_def)
    show ?thesis
      unfolding upload_handler_def
      by (simp only: r f' escape_test_dir escape_file_path c d escape_ensure_dir escape_write fc
            option.case sum.case prod.case)
  qed
  have s: "serve cfg0 env0 (PostUpload ''..'' (Some x_txt)) escape_named =
      (Reply 200 [] (Message ''File uploaded successfully''),
       \<lparr>db = \<lparr>tests = [dotdot_run],
               files = [\<lparr>fid = 1, uid = ''u1'', originalName = ''x.txt'', path = ''/srv/x.txt'',
                         fsize = 0, testId = 1\<rparr>],
               test_seq = 1, file_seq = 1\<rparr>,
         disk = started_disk((True, [''srv'', ''x.txt'']) \<mapsto> Regular [120])\<rparr>)"
    by (simp add: serve_def env0_def u fastify_reply_def status_of_def)
  have n: "disk escape_named (True, [''srv'', ''x.txt'']) = None"
    by (simp add: escape_named_eq started_disk_def)
  have w: "\<not> within (locate (upload_path cfg0)) (True, [''srv'', ''x.txt''])"
    by (simp add: locate_root within_def)
  from n w show ?thesis by (simp add: s locate_root)
qed

end
